theory Spec2Isabelle
  imports Complex_Main
begin

section \<open>Numbers of the run time\<close>

text \<open>
  A JavaScript number is a finite number, \<open>Infinity\<close>, \<open>-Infinity\<close> or \<open>NaN\<close>. The finite
  ones are modelled by rationals and the arithmetic on them is exact: the rounding of
  doubles is not modelled, and \<open>-0\<close> is not told apart from \<open>0\<close> (it differs from \<open>0\<close> only
  as a divisor). The page and the page size of the store are such numbers. Amounts and the
  results of \<open>Date.parse\<close> are finite numbers (or \<open>NaN\<close> for \<open>Date.parse\<close>, which is \<open>None\<close>).
\<close>

type_synonym number = rat

datatype jsnum = Fin rat | PosInf | NegInf | NaN

fun jsNeg :: "jsnum \<Rightarrow> jsnum" where
  "jsNeg (Fin a) = Fin (- a)"
| "jsNeg PosInf = NegInf"
| "jsNeg NegInf = PosInf"
| "jsNeg NaN = NaN"

text \<open>\<open>x + y\<close>\<close>

fun jsAdd :: "jsnum \<Rightarrow> jsnum \<Rightarrow> jsnum" where
  "jsAdd (Fin a) (Fin b) = Fin (a + b)"
| "jsAdd (Fin a) PosInf = PosInf"
| "jsAdd (Fin a) NegInf = NegInf"
| "jsAdd PosInf (Fin b) = PosInf"
| "jsAdd PosInf PosInf = PosInf"
| "jsAdd NegInf (Fin b) = NegInf"
| "jsAdd NegInf NegInf = NegInf"
| "jsAdd x y = NaN"

text \<open>\<open>x - y\<close>\<close>

definition jsSub :: "jsnum \<Rightarrow> jsnum \<Rightarrow> jsnum" where
  "jsSub x y = jsAdd x (jsNeg y)"

text \<open>The infinity with the sign of a non-zero rational.\<close>

definition infOfSign :: "rat \<Rightarrow> jsnum" where
  "infOfSign a = (if 0 < a then PosInf else NegInf)"

text \<open>\<open>x * y\<close>\<close>

fun jsMul :: "jsnum \<Rightarrow> jsnum \<Rightarrow> jsnum" where
  "jsMul (Fin a) (Fin b) = Fin (a * b)"
| "jsMul (Fin a) PosInf = (if a = 0 then NaN else infOfSign a)"
| "jsMul (Fin a) NegInf = (if a = 0 then NaN else infOfSign (- a))"
| "jsMul PosInf (Fin b) = (if b = 0 then NaN else infOfSign b)"
| "jsMul NegInf (Fin b) = (if b = 0 then NaN else infOfSign (- b))"
| "jsMul PosInf PosInf = PosInf"
| "jsMul PosInf NegInf = NegInf"
| "jsMul NegInf PosInf = NegInf"
| "jsMul NegInf NegInf = PosInf"
| "jsMul x y = NaN"

text \<open>\<open>x / y\<close>\<close>

fun jsDiv :: "jsnum \<Rightarrow> jsnum \<Rightarrow> jsnum" where
  "jsDiv (Fin a) (Fin b) =
     (if b \<noteq> 0 then Fin (a / b) else if a = 0 then NaN else infOfSign a)"
| "jsDiv (Fin a) PosInf = Fin 0"
| "jsDiv (Fin a) NegInf = Fin 0"
| "jsDiv PosInf (Fin b) = (if 0 \<le> b then PosInf else NegInf)"
| "jsDiv NegInf (Fin b) = (if 0 \<le> b then NegInf else PosInf)"
| "jsDiv x y = NaN"

text \<open>\<open>x < y\<close>, false when one of them is \<open>NaN\<close>.\<close>

fun jsLess :: "jsnum \<Rightarrow> jsnum \<Rightarrow> bool" where
  "jsLess (Fin a) (Fin b) = (a < b)"
| "jsLess (Fin a) PosInf = True"
| "jsLess NegInf (Fin b) = True"
| "jsLess NegInf PosInf = True"
| "jsLess x y = False"

text \<open>\<open>Math.ceil\<close>, \<open>Math.max\<close> and \<open>Math.min\<close>\<close>

fun mathCeil :: "jsnum \<Rightarrow> jsnum" where
  "mathCeil (Fin a) = Fin (of_int \<lceil>a\<rceil>)"
| "mathCeil x = x"

fun mathMax :: "jsnum \<Rightarrow> jsnum \<Rightarrow> jsnum" where
  "mathMax NaN y = NaN"
| "mathMax x NaN = NaN"
| "mathMax x y = (if jsLess x y then y else x)"

fun mathMin :: "jsnum \<Rightarrow> jsnum \<Rightarrow> jsnum" where
  "mathMin NaN y = NaN"
| "mathMin x NaN = NaN"
| "mathMin x y = (if jsLess y x then y else x)"

text \<open>\<open>Number.isInteger\<close>\<close>

fun isInteger :: "jsnum \<Rightarrow> bool" where
  "isInteger (Fin a) = (of_int \<lfloor>a\<rfloor> = a)"
| "isInteger x = False"

section \<open>Strings of the run time\<close>

text \<open>
  \<open>String.prototype.toLowerCase\<close>, \<open>String.prototype.trim\<close> and \<open>Date.parse\<close> belong to the
  run time, not to the repository: they are the fields of a parameter \<open>rt\<close> of everything
  that uses them, \<open>dateParse\<close> with \<open>None\<close> for \<open>NaN\<close>. Whatever is proved with \<open>rt\<close> free
  holds for the functions of the real run time.
\<close>

record runtime =
  dateParse :: "string \<Rightarrow> number option"
  toLowerCase :: "string \<Rightarrow> string"
  trim :: "string \<Rightarrow> string"

text \<open>\<open>String.prototype.includes\<close>: does the needle occur in the haystack as a contiguous
  run of characters?\<close>

fun startsWith :: "string \<Rightarrow> string \<Rightarrow> bool" where
  "startsWith hs [] = True"
| "startsWith [] (q # qs) = False"
| "startsWith (h # hs) (q # qs) = (h = q \<and> startsWith hs qs)"

fun includes_str :: "string \<Rightarrow> string \<Rightarrow> bool" where
  "includes_str [] q = (q = [])"
| "includes_str (h # hs) q = (startsWith (h # hs) q \<or> includes_str hs q)"

section \<open>Arrays of the run time\<close>

text \<open>\<open>ToIntegerOrInfinity\<close>: \<open>NaN\<close> becomes 0, a finite number is truncated towards zero.\<close>

fun toIntegerOrInfinity :: "jsnum \<Rightarrow> jsnum" where
  "toIntegerOrInfinity NaN = Fin 0"
| "toIntegerOrInfinity (Fin a) = Fin (of_int (if 0 \<le> a then \<lfloor>a\<rfloor> else \<lceil>a\<rceil>))"
| "toIntegerOrInfinity x = x"

text \<open>\<open>Array.prototype.slice(start, end)\<close>: a negative bound counts from the end, and
  both bounds are clamped to the array.\<close>

definition relativeIndex :: "nat \<Rightarrow> jsnum \<Rightarrow> nat" where
  "relativeIndex len x =
     (case toIntegerOrInfinity x of
        NegInf \<Rightarrow> 0
      | PosInf \<Rightarrow> len
      | NaN \<Rightarrow> 0
      | Fin r \<Rightarrow>
          (if r < 0 then nat (max (int len + \<lfloor>r\<rfloor>) 0) else nat (min \<lfloor>r\<rfloor> (int len))))"

definition slice :: "'a list \<Rightarrow> jsnum \<Rightarrow> jsnum \<Rightarrow> 'a list" where
  "slice xs start endIdx =
     (let k = relativeIndex (length xs) start;
          final = relativeIndex (length xs) endIdx
      in take (final - k) (drop k xs))"

text \<open>\<open>Array.prototype.sort(compare)\<close>: a stable sort; an element stays before another
  one unless the comparison function returns a positive number for the pair.\<close>

fun insertSorted :: "('a \<Rightarrow> 'a \<Rightarrow> number) \<Rightarrow> 'a \<Rightarrow> 'a list \<Rightarrow> 'a list" where
  "insertSorted cmp x [] = [x]"
| "insertSorted cmp x (y # ys) =
     (if cmp x y \<le> 0 then x # y # ys else y # insertSorted cmp x ys)"

definition sortBy :: "('a \<Rightarrow> 'a \<Rightarrow> number) \<Rightarrow> 'a list \<Rightarrow> 'a list" where
  "sortBy cmp xs = foldr (insertSorted cmp) xs []"

section \<open>Booking entity model (core/models/booking.model.ts)\<close>

datatype BookingStatus = NEW | CONFIRMED | IN_PROGRESS | DONE | CANCELLED

record Booking =
  id_b :: string
  customerName :: string
  address :: string
  scheduledAtIso :: string
  status :: BookingStatus
  totalCad :: number
  paid :: bool

text \<open>The status of a booking is a string at run time; this is the string.\<close>

fun statusText :: "BookingStatus \<Rightarrow> string" where
  "statusText NEW = ''NEW''"
| "statusText CONFIRMED = ''CONFIRMED''"
| "statusText IN_PROGRESS = ''IN_PROGRESS''"
| "statusText DONE = ''DONE''"
| "statusText CANCELLED = ''CANCELLED''"

section \<open>Store state (features/bookings/data-access/bookings.store.ts)\<close>

datatype BookingFilter = F_ALL | F_NEW | F_CONFIRMED

fun filterText :: "BookingFilter \<Rightarrow> string" where
  "filterText F_ALL = ''ALL''"
| "filterText F_NEW = ''NEW''"
| "filterText F_CONFIRMED = ''CONFIRMED''"

datatype SortKey = SCHEDULED_AT | TOTAL

datatype SortDir = ASC | DESC

fun sortKeyText :: "SortKey \<Rightarrow> string" where
  "sortKeyText SCHEDULED_AT = ''SCHEDULED_AT''"
| "sortKeyText TOTAL = ''TOTAL''"

fun sortDirText :: "SortDir \<Rightarrow> string" where
  "sortDirText ASC = ''ASC''"
| "sortDirText DESC = ''DESC''"

record PendingDelete =
  booking :: Booking
  timerId :: nat

record BookingsState =
  filter_st :: BookingFilter
  page :: jsnum
  pageSize :: jsnum
  sortKey :: SortKey
  sortDir :: SortDir
  query :: string
  serverItems :: "Booking list"
  localItems :: "Booking list"
  pendingDelete :: "PendingDelete option"
  loading :: bool
  error :: "string option"

definition initialState :: BookingsState where
  "initialState =
     \<lparr> filter_st = F_ALL, page = Fin 1, pageSize = Fin 10, sortKey = SCHEDULED_AT, sortDir = DESC,
       query = [], serverItems = [], localItems = [], pendingDelete = None,
       loading = False, error = None \<rparr>"

section \<open>Derived views\<close>

definition items :: "BookingsState \<Rightarrow> Booking list" where
  "items s = localItems s @ serverItems s"

text \<open>The haystack of the search: the template string \<open>`${b.customerName} ${b.address}`\<close>,
  lower-cased.\<close>

definition hay :: "runtime \<Rightarrow> Booking \<Rightarrow> string" where
  "hay rt b = toLowerCase rt (customerName b @ '' '' @ address b)"

definition visibleItems :: "runtime \<Rightarrow> BookingsState \<Rightarrow> Booking list" where
  "visibleItems rt s =
     (let f = filter_st s;
          q = toLowerCase rt (trim rt (query s));
          all = localItems s @ serverItems s;
          filtered = (if f = F_ALL then all
                      else filter (\<lambda>b. statusText (status b) = filterText f) all)
      in if q = [] then filtered
         else filter (\<lambda>b. includes_str (hay rt b) q) filtered)"

text \<open>\<open>Date.parse(x) || 0\<close>\<close>

definition parsedOrZero :: "runtime \<Rightarrow> string \<Rightarrow> number" where
  "parsedOrZero rt x = (case dateParse rt x of None \<Rightarrow> 0 | Some v \<Rightarrow> v)"

definition compareBookings :: "runtime \<Rightarrow> SortKey \<Rightarrow> SortDir \<Rightarrow> Booking \<Rightarrow> Booking \<Rightarrow> number" where
  "compareBookings rt key dir a b =
     (let av = (if key = TOTAL then totalCad a else parsedOrZero rt (scheduledAtIso a));
          bv = (if key = TOTAL then totalCad b else parsedOrZero rt (scheduledAtIso b))
      in if dir = ASC then av - bv else bv - av)"

definition sortedVisibleItems :: "runtime \<Rightarrow> BookingsState \<Rightarrow> Booking list" where
  "sortedVisibleItems rt s = sortBy (compareBookings rt (sortKey s) (sortDir s)) (visibleItems rt s)"

definition totalPages :: "runtime \<Rightarrow> BookingsState \<Rightarrow> jsnum" where
  "totalPages rt s =
     (let total = length (sortedVisibleItems rt s)
      in mathMax (Fin 1) (mathCeil (jsDiv (Fin (of_nat total)) (pageSize s))))"

definition pagedSortedVisibleItems :: "runtime \<Rightarrow> BookingsState \<Rightarrow> Booking list" where
  "pagedSortedVisibleItems rt s =
     (let p = page s;
          size = pageSize s;
          start = jsMul (jsSub p (Fin 1)) size
      in slice (sortedVisibleItems rt s) start (jsAdd start size))"

section \<open>Persisted UI preferences\<close>

text \<open>
  What \<open>localStorage.getItem\<close> followed by \<open>JSON.parse\<close> finds under the key of the UI
  preferences: no item (or the empty string), a string that \<open>JSON.parse\<close> rejects, or a
  JSON value. The properties of a parsed object are a list of pairs with distinct keys;
  a parsed number is finite or, for a literal beyond the range of doubles, infinite.
\<close>

datatype json =
    JNull
  | JBool bool
  | JNum jsnum
  | JStr string
  | JArr "json list"
  | JObj "(string \<times> json) list"

datatype stored = NoItem | Unparsable | Parsed json

datatype js_exn = SyntaxError | TypeError

definition jsonParse :: "stored \<Rightarrow> js_exn + json" where
  "jsonParse raw = (case raw of Parsed j \<Rightarrow> Inr j | _ \<Rightarrow> Inl SyntaxError)"

text \<open>Reading a property: of \<open>null\<close> it throws; of an object it gives the value, if any;
  of every other value it gives nothing that is a string or a number.\<close>

fun getProp :: "json \<Rightarrow> string \<Rightarrow> js_exn + json option" where
  "getProp JNull k = Inl TypeError"
| "getProp (JObj kvs) k = Inr (map_of kvs k)"
| "getProp j k = Inr None"

definition validFilter :: "json option \<Rightarrow> BookingFilter option" where
  "validFilter v =
     (case v of
        Some (JStr x) \<Rightarrow>
          (if x = ''NEW'' then Some F_NEW
           else if x = ''CONFIRMED'' then Some F_CONFIRMED
           else if x = ''ALL'' then Some F_ALL
           else None)
      | _ \<Rightarrow> None)"

definition validSortKey :: "json option \<Rightarrow> SortKey option" where
  "validSortKey v =
     (case v of
        Some (JStr x) \<Rightarrow>
          (if x = ''TOTAL'' then Some TOTAL
           else if x = ''SCHEDULED_AT'' then Some SCHEDULED_AT
           else None)
      | _ \<Rightarrow> None)"

definition validSortDir :: "json option \<Rightarrow> SortDir option" where
  "validSortDir v =
     (case v of
        Some (JStr x) \<Rightarrow>
          (if x = ''ASC'' then Some ASC
           else if x = ''DESC'' then Some DESC
           else None)
      | _ \<Rightarrow> None)"

definition validPageSize :: "json option \<Rightarrow> jsnum option" where
  "validPageSize v =
     (case v of Some (JNum n) \<Rightarrow> (if jsLess (Fin 0) n then Some n else None) | _ \<Rightarrow> None)"

definition validQuery :: "json option \<Rightarrow> string option" where
  "validQuery v = (case v of Some (JStr x) \<Rightarrow> Some x | _ \<Rightarrow> None)"

definition orElse :: "'a option \<Rightarrow> 'a \<Rightarrow> 'a" where
  "orElse v d = (case v of Some x \<Rightarrow> x | None \<Rightarrow> d)"

text \<open>The state update inside the \<open>try\<close> block of \<open>loadUiState\<close>.\<close>

definition applyUi :: "json \<Rightarrow> BookingsState \<Rightarrow> js_exn + BookingsState" where
  "applyUi ui s =
     (case getProp ui ''filter'' of Inl e \<Rightarrow> Inl e | Inr f \<Rightarrow>
     (case getProp ui ''sortKey'' of Inl e \<Rightarrow> Inl e | Inr k \<Rightarrow>
     (case getProp ui ''sortDir'' of Inl e \<Rightarrow> Inl e | Inr d \<Rightarrow>
     (case getProp ui ''pageSize'' of Inl e \<Rightarrow> Inl e | Inr n \<Rightarrow>
     (case getProp ui ''query'' of Inl e \<Rightarrow> Inl e | Inr q \<Rightarrow>
        Inr (s\<lparr> filter_st := orElse (validFilter f) (filter_st s),
                sortKey := orElse (validSortKey k) (sortKey s),
                sortDir := orElse (validSortDir d) (sortDir s),
                pageSize := orElse (validPageSize n) (pageSize s),
                query := orElse (validQuery q) (query s),
                page := Fin 1 \<rparr>))))))"

text \<open>\<open>loadUiState\<close>: \<open>Inl\<close> would be an exception that leaves the function.\<close>

definition loadUiState :: "stored \<Rightarrow> BookingsState \<Rightarrow> js_exn + BookingsState" where
  "loadUiState raw s =
     (if raw = NoItem then Inr s
      else case (case jsonParse raw of Inl e \<Rightarrow> Inl e | Inr ui \<Rightarrow> applyUi ui s) of
             Inl e \<Rightarrow> Inr s
           | Inr s' \<Rightarrow> Inr s')"

text \<open>\<open>saveUiState\<close> writes \<open>JSON.stringify(ui)\<close>; what is stored is what parsing it gives.\<close>

definition saveUiState :: "BookingsState \<Rightarrow> stored" where
  "saveUiState s =
     Parsed (JObj [(''filter'', JStr (filterText (filter_st s))),
                   (''sortKey'', JStr (sortKeyText (sortKey s))),
                   (''sortDir'', JStr (sortDirText (sortDir s))),
                   (''pageSize'', JNum (pageSize s)),
                   (''query'', JStr (query s))])"

section \<open>The store and its surroundings\<close>

text \<open>
  The requests of the store to the API adapter (core/api/bookings.api.ts) that have not
  completed yet. A delete request carries what its error handler has captured: the id,
  the snapshot \<open>s0\<close> and the timer.
\<close>

record CreateBookingRequest =
  req_customerName :: string
  req_address :: string
  req_scheduledAtIso :: string
  req_totalCad :: number
  req_paid :: "bool option"

datatype request =
    ReqList
  | ReqCreate CreateBookingRequest
  | ReqConfirm string
  | ReqDelete string BookingsState nat

text \<open>
  What an observable fails with: an instance of \<open>Error\<close> with its message, or any other
  value, with its \<open>message\<close> property if it has one. The \<open>HttpErrorResponse\<close> with which the
  requests of \<open>HttpClient\<close> fail is of the second kind.
\<close>

datatype err_value = ErrorObj string | OtherFailure "string option"

text \<open>The message that the failure carries.\<close>

fun failureMessage :: "err_value \<Rightarrow> string option" where
  "failureMessage (ErrorObj m) = Some m"
| "failureMessage (OtherFailure m) = m"

datatype response =
    RespList "Booking list"
  | RespBooking Booking
  | RespOk
  | RespError err_value

text \<open>\<open>err instanceof Error ? err.message : d\<close>\<close>

fun errorMessage :: "err_value \<Rightarrow> string \<Rightarrow> string" where
  "errorMessage (ErrorObj m) d = m"
| "errorMessage (OtherFailure m) d = d"

record world =
  state :: BookingsState
  storage :: stored
  timers :: "nat list"
  nextTimerId :: nat
  inflight :: "request list"

text \<open>The constructor: the initial state, then \<open>loadUiState\<close>.\<close>

definition construct :: "stored \<Rightarrow> js_exn + world" where
  "construct raw =
     (case loadUiState raw initialState of
        Inl e \<Rightarrow> Inl e
      | Inr s \<Rightarrow> Inr \<lparr> state = s, storage = raw, timers = [], nextTimerId = 1, inflight = [] \<rparr>)"

section \<open>Operations of the store\<close>

text \<open>
  Each operation is the synchronous part of the method: it takes the world and gives the
  world after the call. \<open>window.setTimeout\<close> hands out the timer ids in order;
  \<open>clearTimeout\<close> removes a timer from the pending ones.
\<close>

definition updateState :: "(BookingsState \<Rightarrow> BookingsState) \<Rightarrow> world \<Rightarrow> world" where
  "updateState f w = w\<lparr> state := f (state w) \<rparr>"

definition persistUi :: "world \<Rightarrow> world" where
  "persistUi w = w\<lparr> storage := saveUiState (state w) \<rparr>"

definition clearTimeout :: "nat \<Rightarrow> world \<Rightarrow> world" where
  "clearTimeout t w = w\<lparr> timers := removeAll t (timers w) \<rparr>"

definition delete :: "string \<Rightarrow> world \<Rightarrow> world" where
  "delete i w =
     (let s0 = state w;
          wasInServer = list_ex (\<lambda>b. id_b b = i) (serverItems s0);
          all = localItems s0 @ serverItems s0
      in case find (\<lambda>b. id_b b = i) all of
           None \<Rightarrow> w
         | Some bk \<Rightarrow>
             (let w1 = updateState (\<lambda>s. s\<lparr> localItems := filter (\<lambda>b. id_b b \<noteq> i) (localItems s),
                                            serverItems := filter (\<lambda>b. id_b b \<noteq> i) (serverItems s),
                                            error := None \<rparr>) w;
                  w2 = (case pendingDelete (state w1) of
                          None \<Rightarrow> w1
                        | Some prev \<Rightarrow> clearTimeout (timerId prev) w1);
                  t = nextTimerId w2;
                  w3 = w2\<lparr> timers := timers w2 @ [t], nextTimerId := Suc t \<rparr>;
                  w4 = updateState (\<lambda>s. s\<lparr> pendingDelete := Some \<lparr> booking = bk, timerId = t \<rparr> \<rparr>) w3
              in if wasInServer then w4\<lparr> inflight := inflight w4 @ [ReqDelete i s0 t] \<rparr> else w4))"

definition undoDelete :: "world \<Rightarrow> world" where
  "undoDelete w =
     (case pendingDelete (state w) of
        None \<Rightarrow> w
      | Some pd \<Rightarrow>
          updateState (\<lambda>s. s\<lparr> localItems := booking pd # localItems s,
                                pendingDelete := None,
                                page := Fin 1 \<rparr>)
            (clearTimeout (timerId pd) w))"

definition setQuery :: "string \<Rightarrow> world \<Rightarrow> world" where
  "setQuery q w = persistUi (updateState (\<lambda>s. s\<lparr> query := q, page := Fin 1 \<rparr>) w)"

definition setPage :: "jsnum \<Rightarrow> world \<Rightarrow> world" where
  "setPage p w = updateState (\<lambda>s. s\<lparr> page := p \<rparr>) w"

definition nextPage :: "runtime \<Rightarrow> world \<Rightarrow> world" where
  "nextPage rt w =
     (let tp = totalPages rt (state w)
      in updateState (\<lambda>s. s\<lparr> page := mathMin (jsAdd (page s) (Fin 1)) tp \<rparr>) w)"

definition prevPage :: "world \<Rightarrow> world" where
  "prevPage w = updateState (\<lambda>s. s\<lparr> page := mathMax (Fin 1) (jsSub (page s) (Fin 1)) \<rparr>) w"

definition load :: "world \<Rightarrow> world" where
  "load w =
     (let w1 = updateState (\<lambda>s. s\<lparr> loading := True, error := None \<rparr>) w
      in w1\<lparr> inflight := inflight w1 @ [ReqList] \<rparr>)"

definition add :: "Booking \<Rightarrow> world \<Rightarrow> world" where
  "add b w = updateState (\<lambda>s. s\<lparr> localItems := b # localItems s \<rparr>) w"

definition confirm :: "string \<Rightarrow> world \<Rightarrow> world" where
  "confirm i w =
     (let w1 = updateState
                 (\<lambda>s. s\<lparr> localItems := map (\<lambda>b. if id_b b = i then b\<lparr> status := CONFIRMED \<rparr> else b)
                                           (localItems s),
                          serverItems := map (\<lambda>b. if id_b b = i then b\<lparr> status := CONFIRMED \<rparr> else b)
                                            (serverItems s),
                          error := None \<rparr>) w;
          wasInServer = list_ex (\<lambda>b. id_b b = i) (serverItems (state w1))
      in if \<not> wasInServer then w1
         else w1\<lparr> inflight := inflight w1 @ [ReqConfirm i] \<rparr>)"

definition setSort :: "SortKey \<Rightarrow> world \<Rightarrow> world" where
  "setSort k w =
     persistUi
       (updateState
          (\<lambda>s. let nextDir = (if sortKey s = k then (if sortDir s = ASC then DESC else ASC) else DESC)
                in s\<lparr> sortKey := k, sortDir := nextDir, page := Fin 1 \<rparr>) w)"

definition setPageSize :: "jsnum \<Rightarrow> world \<Rightarrow> world" where
  "setPageSize n w = persistUi (updateState (\<lambda>s. s\<lparr> pageSize := n, page := Fin 1 \<rparr>) w)"

definition setFilter :: "BookingFilter \<Rightarrow> world \<Rightarrow> world" where
  "setFilter f w = persistUi (updateState (\<lambda>s. s\<lparr> filter_st := f, page := Fin 1 \<rparr>) w)"

definition create :: "CreateBookingRequest \<Rightarrow> world \<Rightarrow> world" where
  "create r w =
     (let w1 = updateState (\<lambda>s. s\<lparr> loading := True, error := None \<rparr>) w
      in w1\<lparr> inflight := inflight w1 @ [ReqCreate r] \<rparr>)"

section \<open>Completions: responses of the adapter and the expiry timer\<close>

text \<open>The handler that the store has subscribed for a request, run on its response;
  \<open>None\<close> when the response is not one the adapter gives to that request.\<close>

fun onResponse :: "request \<Rightarrow> response \<Rightarrow> world \<Rightarrow> world option" where
  "onResponse ReqList (RespList xs) w =
     Some (updateState (\<lambda>s. s\<lparr> serverItems := xs, loading := False \<rparr>) w)"
| "onResponse ReqList (RespError e) w =
     Some (updateState (\<lambda>s. s\<lparr> error := Some (errorMessage e ''Unknown error''),
                                 loading := False \<rparr>) w)"
| "onResponse (ReqCreate r) (RespBooking created) w =
     Some (updateState (\<lambda>s. s\<lparr> serverItems := created # serverItems s,
                                 loading := False, page := Fin 1 \<rparr>) w)"
| "onResponse (ReqCreate r) (RespError e) w =
     Some (updateState (\<lambda>s. s\<lparr> error := Some (errorMessage e ''Create failed''),
                                 loading := False \<rparr>) w)"
| "onResponse (ReqConfirm i) (RespBooking updated) w =
     Some (updateState (\<lambda>s. s\<lparr> serverItems := map (\<lambda>b. if id_b b = i then updated else b)
                                                    (serverItems s) \<rparr>) w)"
| "onResponse (ReqConfirm i) (RespError e) w =
     Some (updateState (\<lambda>s. s\<lparr> error := Some (errorMessage e ''Confirm failed'') \<rparr>) w)"
| "onResponse (ReqDelete i s0 t) RespOk w = Some w"
| "onResponse (ReqDelete i s0 t) (RespError e) w =
     Some (updateState (\<lambda>s. s0\<lparr> error := Some (errorMessage e ''Delete failed''),
                                  pendingDelete := None \<rparr>)
             (clearTimeout t w))"
| "onResponse r x w = None"

text \<open>A request in flight completes with a response.\<close>

definition complete :: "request \<Rightarrow> response \<Rightarrow> world \<Rightarrow> world option" where
  "complete r x w =
     (if r \<in> set (inflight w)
      then onResponse r x (w\<lparr> inflight := remove1 r (inflight w) \<rparr>)
      else None)"

text \<open>A pending timer of \<open>delete\<close> expires.\<close>

definition timerFires :: "nat \<Rightarrow> world \<Rightarrow> world option" where
  "timerFires t w =
     (if t \<in> set (timers w)
      then Some (updateState (\<lambda>s. s\<lparr> pendingDelete := None \<rparr>) (clearTimeout t w))
      else None)"

section \<open>Runs of the store\<close>

datatype event =
    Load
  | Add Booking
  | Create CreateBookingRequest
  | Confirm string
  | Delete string
  | UndoDelete
  | SetQuery string
  | SetPage jsnum
  | NextPage
  | PrevPage
  | SetSort SortKey
  | SetPageSize jsnum
  | SetFilter BookingFilter
  | Completes request response
  | TimerFires nat

fun step :: "runtime \<Rightarrow> event \<Rightarrow> world \<Rightarrow> world option" where
  "step rt Load w = Some (load w)"
| "step rt (Add b) w = Some (add b w)"
| "step rt (Create r) w = Some (create r w)"
| "step rt (Confirm i) w = Some (confirm i w)"
| "step rt (Delete i) w = Some (delete i w)"
| "step rt UndoDelete w = Some (undoDelete w)"
| "step rt (SetQuery q) w = Some (setQuery q w)"
| "step rt (SetPage p) w = Some (setPage p w)"
| "step rt NextPage w = Some (nextPage rt w)"
| "step rt PrevPage w = Some (prevPage w)"
| "step rt (SetSort k) w = Some (setSort k w)"
| "step rt (SetPageSize n) w = Some (setPageSize n w)"
| "step rt (SetFilter f) w = Some (setFilter f w)"
| "step rt (Completes r x) w = complete r x w"
| "step rt (TimerFires t) w = timerFires t w"

fun run :: "runtime \<Rightarrow> event list \<Rightarrow> world \<Rightarrow> world option" where
  "run rt [] w = Some w"
| "run rt (e # es) w = (case step rt e w of None \<Rightarrow> None | Some w' \<Rightarrow> run rt es w')"

section \<open>What the claims speak of\<close>

text \<open>The ids of a collection, and the partition of the ids between the two collections.\<close>

definition ids :: "Booking list \<Rightarrow> string set" where
  "ids xs = set (map id_b xs)"

definition partitioned :: "BookingsState \<Rightarrow> bool" where
  "partitioned s \<longleftrightarrow> ids (localItems s) \<inter> ids (serverItems s) = {}"

text \<open>The id of the booking held for undo, if there is one.\<close>

definition pendingId :: "BookingsState \<Rightarrow> string set" where
  "pendingId s = (case pendingDelete s of None \<Rightarrow> {} | Some pd \<Rightarrow> {id_b (booking pd)})"

text \<open>
  The store checks no id. What keeps the ids apart is the discipline of its surroundings:
  \<open>add\<close> is called with an id that is not in \<open>serverItems\<close>; a list response has no id
  that is in \<open>localItems\<close> or held for undo; a create response has an id that is neither
  in \<open>localItems\<close> nor held for undo; a confirm response has the id that was confirmed.
\<close>

fun idsRespected :: "event \<Rightarrow> world \<Rightarrow> bool" where
  "idsRespected (Add b) w \<longleftrightarrow> id_b b \<notin> ids (serverItems (state w))"
| "idsRespected (Completes ReqList (RespList xs)) w \<longleftrightarrow>
     ids xs \<inter> (ids (localItems (state w)) \<union> pendingId (state w)) = {}"
| "idsRespected (Completes (ReqCreate r) (RespBooking created)) w \<longleftrightarrow>
     id_b created \<notin> ids (localItems (state w)) \<union> pendingId (state w)"
| "idsRespected (Completes (ReqConfirm i) (RespBooking updated)) w \<longleftrightarrow> id_b updated = i"
| "idsRespected e w \<longleftrightarrow> True"

fun allRespected :: "runtime \<Rightarrow> event list \<Rightarrow> world \<Rightarrow> bool" where
  "allRespected rt [] w \<longleftrightarrow> True"
| "allRespected rt (e # es) w \<longleftrightarrow>
     idsRespected e w \<and> (case step rt e w of None \<Rightarrow> True | Some w' \<Rightarrow> allRespected rt es w')"

text \<open>The snapshots that the error handlers of the delete requests in flight hold.\<close>

fun snapshots :: "request list \<Rightarrow> BookingsState list" where
  "snapshots [] = []"
| "snapshots (ReqDelete i s0 t # rs) = s0 # snapshots rs"
| "snapshots (r # rs) = snapshots rs"

text \<open>The invariant of the runs that respect the ids.\<close>

definition storeInv :: "world \<Rightarrow> bool" where
  "storeInv w \<longleftrightarrow>
     partitioned (state w)
     \<and> pendingId (state w) \<inter> ids (serverItems (state w)) = {}
     \<and> list_all partitioned (snapshots (inflight w))"

text \<open>
  The search as the specification words it: the items filtered by the status filter
  (all of them under \<open>ALL\<close>), then by the query, a case-insensitive substring match
  against the concatenation of \<open>customerName\<close> and \<open>address\<close>, where an empty or
  white-space-only query matches everything.
\<close>

definition spec_visibleItems :: "runtime \<Rightarrow> BookingsState \<Rightarrow> Booking list" where
  "spec_visibleItems rt s =
     filter (\<lambda>b. trim rt (query s) = []
                 \<or> includes_str (toLowerCase rt (customerName b @ address b))
                                 (toLowerCase rt (query s)))
       (filter (\<lambda>b. filter_st s = F_ALL \<or> statusText (status b) = filterText (filter_st s))
          (items s))"

text \<open>What reading a property of the stored preferences gives, when it gives a value.\<close>

definition storedField :: "stored \<Rightarrow> string \<Rightarrow> json option" where
  "storedField raw k = (case raw of Parsed (JObj kvs) \<Rightarrow> map_of kvs k | _ \<Rightarrow> None)"

section \<open>A run time and worlds for evaluation\<close>

text \<open>
  On strings whose characters have codes below 256, \<open>toLowerCase\<close> adds 32 to the codes
  of \<open>A\<close> to \<open>Z\<close> and of the capital letters from 192 to 222 (215, the multiplication sign,
  is none), which sets the bit of value 32; \<open>trim\<close> strips tab, line feed, vertical tab,
  form feed, carriage return, space and no-break space. The dates of the examples do not
  matter: \<open>dateParse\<close> gives \<open>NaN\<close>.
\<close>

definition lowerChar :: "char \<Rightarrow> char" where
  "lowerChar c =
     (let n = (of_char c :: nat)
      in if (65 \<le> n \<and> n \<le> 90) \<or> (192 \<le> n \<and> n \<le> 222 \<and> n \<noteq> 215)
         then (case c of Char b0 b1 b2 b3 b4 b5 b6 b7 \<Rightarrow> Char b0 b1 b2 b3 b4 True b6 b7)
         else c)"

definition isWhiteSpace :: "char \<Rightarrow> bool" where
  "isWhiteSpace c \<longleftrightarrow>
     c \<in> set [CHR 0x09, CHR 0x0A, CHR 0x0B, CHR 0x0C, CHR 0x0D, CHR 0x20, CHR 0xA0]"

definition latin1Runtime :: runtime where
  "latin1Runtime =
     \<lparr> dateParse = (\<lambda>x. None),
       toLowerCase = map lowerChar,
       trim = (\<lambda>s. rev (dropWhile isWhiteSpace (rev (dropWhile isWhiteSpace s)))) \<rparr>"

definition newWorld :: "stored \<Rightarrow> BookingsState \<Rightarrow> world" where
  "newWorld raw s = \<lparr> state = s, storage = raw, timers = [], nextTimerId = 1, inflight = [] \<rparr>"

definition bookingA :: Booking where
  "bookingA = \<lparr> id_b = ''1'', customerName = ''Ann'', address = ''123 Main St'',
                 scheduledAtIso = ''2026-01-05T09:00:00.000Z'', status = NEW,
                 totalCad = 100, paid = False \<rparr>"

definition bookingB :: Booking where
  "bookingB = \<lparr> id_b = ''2'', customerName = ''Bob'', address = ''9 Elm Rd'',
                 scheduledAtIso = ''2026-01-06T09:00:00.000Z'', status = CONFIRMED,
                 totalCad = 200, paid = True \<rparr>"

definition bookingC :: Booking where
  "bookingC = \<lparr> id_b = ''3'', customerName = ''ab'', address = ''cd'',
                 scheduledAtIso = ''2026-01-07T09:00:00.000Z'', status = NEW,
                 totalCad = 180, paid = False \<rparr>"

definition bookingA2 :: Booking where
  "bookingA2 = \<lparr> id_b = ''1'', customerName = ''Zoe'', address = ''77 Oak Ave'',
                  scheduledAtIso = ''2026-02-01T10:00:00.000Z'', status = CONFIRMED,
                  totalCad = 220, paid = True \<rparr>"

definition serverWorld :: world where
  "serverWorld = newWorld NoItem (initialState\<lparr> serverItems := [bookingA, bookingB] \<rparr>)"

definition dupWorld :: world where
  "dupWorld = newWorld NoItem (initialState\<lparr> serverItems := [bookingA2], localItems := [bookingA] \<rparr>)"

definition requestC :: CreateBookingRequest where
  "requestC = \<lparr> req_customerName = ''Zoe'', req_address = ''77 Oak Ave'',
                 req_scheduledAtIso = ''2026-02-01T10:00:00.000Z'', req_totalCad = 220,
                 req_paid = Some True \<rparr>"

text \<open>A failure as \<open>HttpClient\<close> gives it: not an instance of \<open>Error\<close>, with a message.\<close>

definition httpFailure :: err_value where
  "httpFailure = OtherFailure (Some ''Http failure response for /api/bookings: 500 Server Error'')"

section \<open>Properties\<close>

subsection \<open>Projections of the world after the elementary updates\<close>

lemma state_updateState [simp]: "state (updateState f w) = f (state w)"
  and storage_updateState [simp]: "storage (updateState f w) = storage w"
  and timers_updateState [simp]: "timers (updateState f w) = timers w"
  and nextTimerId_updateState [simp]: "nextTimerId (updateState f w) = nextTimerId w"
  and inflight_updateState [simp]: "inflight (updateState f w) = inflight w"
  by (simp_all add: updateState_def)

lemma state_clearTimeout [simp]: "state (clearTimeout t w) = state w"
  and storage_clearTimeout [simp]: "storage (clearTimeout t w) = storage w"
  and timers_clearTimeout [simp]: "timers (clearTimeout t w) = removeAll t (timers w)"
  and nextTimerId_clearTimeout [simp]: "nextTimerId (clearTimeout t w) = nextTimerId w"
  and inflight_clearTimeout [simp]: "inflight (clearTimeout t w) = inflight w"
  by (simp_all add: clearTimeout_def)

lemma state_persistUi [simp]: "state (persistUi w) = state w"
  and storage_persistUi [simp]: "storage (persistUi w) = saveUiState (state w)"
  and timers_persistUi [simp]: "timers (persistUi w) = timers w"
  and nextTimerId_persistUi [simp]: "nextTimerId (persistUi w) = nextTimerId w"
  and inflight_persistUi [simp]: "inflight (persistUi w) = inflight w"
  by (simp_all add: persistUi_def)

subsection \<open>Load failure\<close>

text \<open>
  C5 (load-failure frame), as amended. In every world, when \<open>load()\<close> is called and the
  list request fails, the request completes, \<open>loading\<close> is false, \<open>serverItems\<close> and
  \<open>localItems\<close> are what they were before the call, and \<open>error\<close> is the message of the
  failure when the failure is an instance of \<open>Error\<close>, the fixed text \<open>Unknown error\<close> when
  it is anything else.
\<close>

theorem load_failure_frame:
  "\<exists>w'. step rt (Completes ReqList (RespError e)) (load w) = Some w'
        \<and> loading (state w') = False
        \<and> error (state w') = Some (case e of ErrorObj m \<Rightarrow> m | OtherFailure x \<Rightarrow> ''Unknown error'')
        \<and> serverItems (state w') = serverItems (state w)
        \<and> localItems (state w') = localItems (state w)"
  by (cases e) (simp_all add: complete_def load_def Let_def)

theorem load_failure_frame_witness:
  "\<exists>w'. step latin1Runtime (Completes ReqList (RespError (ErrorObj ''network error'')))
           (load serverWorld) = Some w'
        \<and> loading (state w') = False
        \<and> error (state w') = Some ''network error''
        \<and> serverItems (state w') = [bookingA, bookingB]
        \<and> localItems (state w') = []"
proof -
  obtain w' where
    "step latin1Runtime (Completes ReqList (RespError (ErrorObj ''network error'')))
       (load serverWorld) = Some w'"
    and "loading (state w') = False"
    and "error (state w')
           = Some (case ErrorObj ''network error'' of ErrorObj m \<Rightarrow> m
                   | OtherFailure x \<Rightarrow> ''Unknown error'')"
    and "serverItems (state w') = serverItems (state serverWorld)"
    and "localItems (state w') = localItems (state serverWorld)"
    using load_failure_frame [of latin1Runtime "ErrorObj ''network error''" serverWorld] by blast
  then show ?thesis
    by (intro exI [of _ w']) (simp add: serverWorld_def newWorld_def initialState_def)
qed

text \<open>
  As the claim is written, \<open>error\<close> holds the failure message. A failure that is not an
  instance of \<open>Error\<close> has its message dropped: \<open>error\<close> is \<open>Unknown error\<close>.
\<close>

theorem load_failure_frame_counterexample:
  "map_option (error \<circ> state)
     (step latin1Runtime (Completes ReqList (RespError httpFailure)) (load serverWorld))
     = Some (Some ''Unknown error'')
   \<and> failureMessage httpFailure
     = Some ''Http failure response for /api/bookings: 500 Server Error''"
  by (simp add: complete_def load_def Let_def httpFailure_def)

subsection \<open>Sorting\<close>

text \<open>
  C9 (sort toggle). \<open>setSort(k)\<close> sets the sort key to \<open>k\<close> and the page to 1; when \<open>k\<close> was
  the sort key already, the direction flips (ASC to DESC, DESC to ASC), otherwise the
  direction is DESC. On a store sorted by SCHEDULED_AT, \<open>setSort('TOTAL')\<close> gives TOTAL
  and DESC, and a second \<open>setSort('TOTAL')\<close> gives TOTAL and ASC.
\<close>

theorem setSort_toggle:
  "sortKey (state (setSort k w)) = k
   \<and> page (state (setSort k w)) = Fin 1
   \<and> (sortKey (state w) = k \<and> sortDir (state w) = ASC \<longrightarrow> sortDir (state (setSort k w)) = DESC)
   \<and> (sortKey (state w) = k \<and> sortDir (state w) = DESC \<longrightarrow> sortDir (state (setSort k w)) = ASC)
   \<and> (sortKey (state w) \<noteq> k \<longrightarrow> sortDir (state (setSort k w)) = DESC)
   \<and> (sortKey (state w) = SCHEDULED_AT \<longrightarrow>
        sortKey (state (setSort TOTAL w)) = TOTAL
        \<and> sortDir (state (setSort TOTAL w)) = DESC
        \<and> sortKey (state (setSort TOTAL (setSort TOTAL w))) = TOTAL
        \<and> sortDir (state (setSort TOTAL (setSort TOTAL w))) = ASC)"
  by (cases "sortDir (state w)") (simp_all add: setSort_def Let_def)

theorem setSort_toggle_witness:
  "sortKey (state (newWorld NoItem initialState)) = SCHEDULED_AT
   \<and> sortDir (state (setSort TOTAL (newWorld NoItem initialState))) = DESC
   \<and> sortDir (state (setSort TOTAL (setSort TOTAL (newWorld NoItem initialState)))) = ASC
   \<and> sortDir (state (setSort SCHEDULED_AT (newWorld NoItem initialState))) = ASC
   \<and> sortDir (state (setSort SCHEDULED_AT (setSort SCHEDULED_AT (newWorld NoItem initialState)))) = DESC"
  using setSort_toggle [of TOTAL "newWorld NoItem initialState"]
    setSort_toggle [of SCHEDULED_AT "newWorld NoItem initialState"]
    setSort_toggle [of SCHEDULED_AT "setSort SCHEDULED_AT (newWorld NoItem initialState)"]
  by (simp add: newWorld_def initialState_def)

subsection \<open>Adding a booking\<close>

text \<open>
  C10 (unguarded add). For every booking, whether or not its id occurs in \<open>localItems\<close> or
  \<open>serverItems\<close> already, \<open>add(booking)\<close> puts the booking at the head of \<open>localItems\<close>; it
  sends no request, writes no preferences, touches no timer, and leaves every other field
  of the state as it was.
\<close>

theorem add_frame:
  "localItems (state (add b w)) = b # localItems (state w)
   \<and> serverItems (state (add b w)) = serverItems (state w)
   \<and> filter_st (state (add b w)) = filter_st (state w)
   \<and> page (state (add b w)) = page (state w)
   \<and> pageSize (state (add b w)) = pageSize (state w)
   \<and> sortKey (state (add b w)) = sortKey (state w)
   \<and> sortDir (state (add b w)) = sortDir (state w)
   \<and> query (state (add b w)) = query (state w)
   \<and> pendingDelete (state (add b w)) = pendingDelete (state w)
   \<and> loading (state (add b w)) = loading (state w)
   \<and> error (state (add b w)) = error (state w)
   \<and> inflight (add b w) = inflight w
   \<and> storage (add b w) = storage w
   \<and> timers (add b w) = timers w"
  by (simp add: add_def)

subsection \<open>Pagination\<close>

lemma relativeIndex_of_nat: "relativeIndex len (Fin (of_nat a)) = min a len"
  by (simp add: relativeIndex_def min_def)

lemma slice_of_nat:
  "slice xs (Fin (of_nat a)) (jsAdd (Fin (of_nat a)) (Fin (of_nat n))) = take n (drop a xs)"
proof -
  have "jsAdd (Fin (of_nat a)) (Fin (of_nat n)) = Fin (of_nat (a + n))"
    by simp
  then have "slice xs (Fin (of_nat a)) (jsAdd (Fin (of_nat a)) (Fin (of_nat n)))
          = take (min (a + n) (length xs) - min a (length xs)) (drop (min a (length xs)) xs)"
    by (simp only: slice_def relativeIndex_of_nat Let_def)
  also have "\<dots> = take n (drop a xs)"
  proof (cases "a < length xs")
    case True
    then have "min (a + n) (length xs) - min a (length xs) = min n (length (drop a xs))"
      by (auto simp: min_def)
    with True show ?thesis by (simp add: min_def)
  next
    case False
    then show ?thesis by simp
  qed
  finally show ?thesis .
qed

lemma concat_pages:
  "concat (map (\<lambda>p. take n (drop ((p - 1) * n) xs)) [1..<Suc k]) = take (k * n) xs"
proof (induction k)
  case 0
  then show ?case by simp
next
  case (Suc k)
  have "take (k * n) xs @ take n (drop (k * n) xs) = take (k * n + n) xs"
    by (simp add: take_add)
  with Suc show ?case by (simp add: add.commute)
qed

lemma sortedVisibleItems_page [simp]:
  "sortedVisibleItems rt (s\<lparr> page := p \<rparr>) = sortedVisibleItems rt s"
  by (simp add: sortedVisibleItems_def visibleItems_def)

lemma paged_of_nat:
  assumes "pageSize s = Fin (of_nat n)" and "0 < p"
  shows "pagedSortedVisibleItems rt (s\<lparr> page := Fin (of_nat p) \<rparr>)
           = take n (drop ((p - 1) * n) (sortedVisibleItems rt s))"
proof -
  obtain k where p: "p = Suc k"
    using assms(2) by (cases p) auto
  have start: "jsMul (jsSub (Fin (of_nat p)) (Fin 1)) (Fin (of_nat n)) = Fin (of_nat ((p - 1) * n))"
    unfolding p by (simp add: jsSub_def)
  have "pagedSortedVisibleItems rt (s\<lparr> page := Fin (of_nat p) \<rparr>)
          = slice (sortedVisibleItems rt s) (jsMul (jsSub (Fin (of_nat p)) (Fin 1)) (Fin (of_nat n)))
              (jsAdd (jsMul (jsSub (Fin (of_nat p)) (Fin 1)) (Fin (of_nat n))) (Fin (of_nat n)))"
    using assms(1) by (simp add: pagedSortedVisibleItems_def Let_def)
  also have "\<dots> = take n (drop ((p - 1) * n) (sortedVisibleItems rt s))"
    unfolding start by (rule slice_of_nat)
  finally show ?thesis .
qed

lemma ceiling_pages:
  assumes "0 < n"
  shows "len \<le> nat (max 1 \<lceil>(of_nat len :: rat) / of_nat n\<rceil>) * n"
proof -
  let ?c = "\<lceil>(of_nat len :: rat) / of_nat n\<rceil>"
  have "(of_nat len :: rat) / of_nat n \<le> of_int ?c"
    by (rule le_of_int_ceiling)
  then have "(of_nat len :: rat) / of_nat n * of_nat n \<le> of_int ?c * of_nat n"
    by (rule mult_right_mono) simp
  then have "(of_nat len :: rat) \<le> of_int ?c * of_nat n"
    using assms by simp
  also have "\<dots> \<le> of_int (max 1 ?c) * of_nat n"
    by (simp add: mult_right_mono)
  finally have "(of_nat len :: rat) \<le> of_int (max 1 ?c * int n)"
    by simp
  then have "int len \<le> max 1 ?c * int n"
    by (metis of_int_le_iff of_int_of_nat_eq)
  moreover have "0 \<le> max 1 ?c"
    by simp
  then have "max 1 ?c * int n = int (nat (max 1 ?c) * n)"
    by simp
  ultimately show ?thesis
    by linarith
qed

lemma mathMax_of_int: "mathMax (Fin 1) (Fin (of_int c)) = Fin (of_int (max 1 c))"
  by (simp add: max_def)

lemma totalPages_of_nat:
  assumes "pageSize s = Fin (of_nat n)" and "0 < n"
  shows "totalPages rt s
           = Fin (of_nat (nat (max 1 \<lceil>(of_nat (length (sortedVisibleItems rt s)) :: rat) / of_nat n\<rceil>)))"
proof -
  let ?c = "\<lceil>(of_nat (length (sortedVisibleItems rt s)) :: rat) / of_nat n\<rceil>"
  have "(of_nat (nat (max 1 ?c)) :: rat) = of_int (max 1 ?c)"
    by (metis int_nat_eq max.cobounded1 of_int_of_nat_eq order_trans zero_le_one)
  moreover have "mathMax (Fin 1) (Fin (of_int ?c)) = Fin (of_int (max 1 ?c))"
    by (rule mathMax_of_int)
  ultimately show ?thesis
    using assms by (simp add: totalPages_def Let_def)
qed

text \<open>
  C6 (pagination coverage). In every state whose page size is a positive integer \<open>n\<close>,
  \<open>totalPages\<close> is \<open>max(1, ceil(length(sortedVisibleItems) / pageSize))\<close>, and the pages
  1 to \<open>totalPages\<close> of \<open>pagedSortedVisibleItems\<close>, one after the other, all else fixed, are
  \<open>sortedVisibleItems\<close> itself: nothing is left out and nothing comes twice.
\<close>

theorem pagination_coverage:
  assumes "pageSize s = Fin (of_nat n)" and "0 < n"
  shows "\<exists>tp. totalPages rt s = Fin (of_nat tp)
           \<and> int tp = max 1 \<lceil>(of_nat (length (sortedVisibleItems rt s)) :: rat) / of_nat n\<rceil>
           \<and> concat (map (\<lambda>p. pagedSortedVisibleItems rt (s\<lparr> page := Fin (of_nat p) \<rparr>)) [1..<Suc tp])
               = sortedVisibleItems rt s"
proof -
  let ?xs = "sortedVisibleItems rt s"
  let ?c = "max 1 \<lceil>(of_nat (length ?xs) :: rat) / of_nat n\<rceil>"
  let ?tp = "nat ?c"
  have tp: "int ?tp = ?c" by simp
  have total: "totalPages rt s = Fin (of_nat ?tp)"
    by (rule totalPages_of_nat [OF assms])
  have "map (\<lambda>p. pagedSortedVisibleItems rt (s\<lparr> page := Fin (of_nat p) \<rparr>)) [1..<Suc ?tp]
          = map (\<lambda>p. take n (drop ((p - 1) * n) ?xs)) [1..<Suc ?tp]"
  proof (rule map_cong [OF refl])
    fix p
    assume "p \<in> set [1..<Suc ?tp]"
    then have "1 \<le> p"
      unfolding set_upt atLeastLessThan_iff by blast
    then have "0 < p" by simp
    then show "pagedSortedVisibleItems rt (s\<lparr> page := Fin (of_nat p) \<rparr>)
                 = take n (drop ((p - 1) * n) ?xs)"
      by (rule paged_of_nat [OF assms(1)])
  qed
  then have "concat (map (\<lambda>p. pagedSortedVisibleItems rt (s\<lparr> page := Fin (of_nat p) \<rparr>)) [1..<Suc ?tp])
          = take (?tp * n) ?xs"
    by (simp only: concat_pages)
  also have "\<dots> = ?xs"
  proof -
    have "length ?xs \<le> ?tp * n"
      by (rule ceiling_pages [OF assms(2)])
    then show ?thesis by (rule take_all)
  qed
  finally have cover: "concat (map (\<lambda>p. pagedSortedVisibleItems rt (s\<lparr> page := Fin (of_nat p) \<rparr>)) [1..<Suc ?tp]) = ?xs" .
  show ?thesis
    using total tp cover by blast
qed

theorem pagination_coverage_witness:
  "pageSize ((state serverWorld)\<lparr> pageSize := Fin 1 \<rparr>) = Fin (of_nat 1)
   \<and> (0::nat) < 1
   \<and> (\<exists>tp. totalPages latin1Runtime ((state serverWorld)\<lparr> pageSize := Fin 1 \<rparr>) = Fin (of_nat tp)
          \<and> concat (map (\<lambda>p. pagedSortedVisibleItems latin1Runtime
                                 ((state serverWorld)\<lparr> pageSize := Fin 1, page := Fin (of_nat p) \<rparr>))
                         [1..<Suc tp])
              = sortedVisibleItems latin1Runtime ((state serverWorld)\<lparr> pageSize := Fin 1 \<rparr>))"
proof -
  have n: "pageSize ((state serverWorld)\<lparr> pageSize := Fin 1 \<rparr>) = Fin (of_nat 1)"
    by simp
  have p: "(0::nat) < 1"
    by simp
  obtain tp where "totalPages latin1Runtime ((state serverWorld)\<lparr> pageSize := Fin 1 \<rparr>) = Fin (of_nat tp)"
    and "concat (map (\<lambda>p. pagedSortedVisibleItems latin1Runtime
                             ((state serverWorld)\<lparr> pageSize := Fin 1 \<rparr>\<lparr> page := Fin (of_nat p) \<rparr>))
                     [1..<Suc tp])
           = sortedVisibleItems latin1Runtime ((state serverWorld)\<lparr> pageSize := Fin 1 \<rparr>)"
    using pagination_coverage [OF n p, of latin1Runtime] by blast
  then show ?thesis
    by (intro conjI exI [of _ tp]) simp_all
qed

subsection \<open>Confirm and its failure\<close>

lemma list_ex_confirmed:
  "list_ex (\<lambda>c. id_b c = i) (map (\<lambda>b. if id_b b = i then b\<lparr> status := CONFIRMED \<rparr> else b) xs)
     = list_ex (\<lambda>c. id_b c = i) xs"
  by (induction xs) simp_all

lemma confirmed_in_map:
  assumes "c \<in> set (map (\<lambda>b. if id_b b = i then b\<lparr> status := CONFIRMED \<rparr> else b) xs)"
    and "id_b c = i"
  shows "status c = CONFIRMED"
proof -
  from assms(1) obtain b where c: "c = (if id_b b = i then b\<lparr> status := CONFIRMED \<rparr> else b)"
    unfolding set_map by (rule imageE)
  show ?thesis
  proof (cases "id_b b = i")
    case True
    with c have "c = b\<lparr> status := CONFIRMED \<rparr>" by simp
    then show ?thesis by simp
  next
    case False
    with c have "c = b" by simp
    with assms(2) False show ?thesis by simp
  qed
qed

lemma state_confirm:
  "state (confirm i w)
     = (state w)\<lparr> localItems := map (\<lambda>b. if id_b b = i then b\<lparr> status := CONFIRMED \<rparr> else b)
                                   (localItems (state w)),
                   serverItems := map (\<lambda>b. if id_b b = i then b\<lparr> status := CONFIRMED \<rparr> else b)
                                    (serverItems (state w)),
                   error := None \<rparr>"
  by (simp add: confirm_def Let_def)

lemma inflight_confirm:
  "inflight (confirm i w)
     = (if list_ex (\<lambda>c. id_b c = i) (serverItems (state w))
        then inflight w @ [ReqConfirm i] else inflight w)"
  by (simp add: confirm_def Let_def list_ex_confirmed)

lemma complete_confirm_error:
  assumes "ReqConfirm i \<in> set (inflight w)"
  shows "\<exists>w'. complete (ReqConfirm i) (RespError e) w = Some w'
           \<and> state w' = (state w)\<lparr> error := Some (errorMessage e ''Confirm failed'') \<rparr>"
  using assms by (simp add: complete_def)

text \<open>
  C3 (confirm-failure asymmetry), as amended. For every booking in \<open>serverItems\<close>, when
  \<open>confirm(id)\<close> is called with its id and the confirm request fails, the optimistic
  change stays: the booking is in \<open>serverItems\<close> with status CONFIRMED, as is every booking
  with that id in either collection; and \<open>error\<close> is the message of the failure when the
  failure is an instance of \<open>Error\<close>, the fixed text \<open>Confirm failed\<close> when it is anything
  else.
\<close>

theorem confirm_failure_keeps_status:
  assumes "b \<in> set (serverItems (state w))" and "id_b b = i"
  shows "\<exists>w'. step rt (Completes (ReqConfirm i) (RespError e)) (confirm i w) = Some w'
          \<and> error (state w')
              = Some (case e of ErrorObj m \<Rightarrow> m | OtherFailure x \<Rightarrow> ''Confirm failed'')
          \<and> b\<lparr> status := CONFIRMED \<rparr> \<in> set (serverItems (state w'))
          \<and> serverItems (state w')
              = map (\<lambda>c. if id_b c = i then c\<lparr> status := CONFIRMED \<rparr> else c) (serverItems (state w))
          \<and> localItems (state w')
              = map (\<lambda>c. if id_b c = i then c\<lparr> status := CONFIRMED \<rparr> else c) (localItems (state w))
          \<and> (\<forall>c \<in> set (items (state w')). id_b c = i \<longrightarrow> status c = CONFIRMED)"
proof -
  let ?f = "\<lambda>c. if id_b c = i then c\<lparr> status := CONFIRMED \<rparr> else c"
  have "list_ex (\<lambda>c. id_b c = i) (serverItems (state w))"
    unfolding list_ex_iff using assms by blast
  then have "ReqConfirm i \<in> set (inflight (confirm i w))"
    by (simp add: inflight_confirm)
  then obtain w' where w': "complete (ReqConfirm i) (RespError e) (confirm i w) = Some w'"
    and st: "state w' = (state (confirm i w))\<lparr> error := Some (errorMessage e ''Confirm failed'') \<rparr>"
    using complete_confirm_error by blast
  have srv: "serverItems (state w') = map ?f (serverItems (state w))"
    and loc: "localItems (state w') = map ?f (localItems (state w))"
    by (simp_all add: st state_confirm)
  have err: "error (state w')
               = Some (case e of ErrorObj m \<Rightarrow> m | OtherFailure x \<Rightarrow> ''Confirm failed'')"
    by (cases e) (simp_all add: st)
  have "?f b = b\<lparr> status := CONFIRMED \<rparr>"
    using assms(2) by simp
  moreover have "?f b \<in> ?f ` set (serverItems (state w))"
    using assms(1) by (rule imageI)
  ultimately have mem: "b\<lparr> status := CONFIRMED \<rparr> \<in> set (serverItems (state w'))"
    unfolding srv set_map by simp
  have all: "\<forall>c \<in> set (items (state w')). id_b c = i \<longrightarrow> status c = CONFIRMED"
    unfolding items_def srv loc set_append using confirmed_in_map by blast
  have "step rt (Completes (ReqConfirm i) (RespError e)) (confirm i w) = Some w'"
    using w' by simp
  with err mem srv loc all show ?thesis
    by blast
qed

theorem confirm_failure_keeps_status_witness:
  "bookingA \<in> set (serverItems (state serverWorld))
   \<and> (\<exists>w'. step latin1Runtime (Completes (ReqConfirm ''1'') (RespError (ErrorObj ''network error'')))
                (confirm ''1'' serverWorld) = Some w'
          \<and> error (state w') = Some ''network error''
          \<and> bookingA\<lparr> status := CONFIRMED \<rparr> \<in> set (serverItems (state w')))"
proof -
  have b: "bookingA \<in> set (serverItems (state serverWorld))"
    by (simp add: serverWorld_def newWorld_def)
  have i: "id_b bookingA = ''1''"
    by (simp add: bookingA_def)
  obtain w' where
    "step latin1Runtime (Completes (ReqConfirm ''1'') (RespError (ErrorObj ''network error'')))
       (confirm ''1'' serverWorld) = Some w'"
    and "error (state w')
           = Some (case ErrorObj ''network error'' of ErrorObj m \<Rightarrow> m
                   | OtherFailure x \<Rightarrow> ''Confirm failed'')"
    and "bookingA\<lparr> status := CONFIRMED \<rparr> \<in> set (serverItems (state w'))"
    using confirm_failure_keeps_status [OF b i, of latin1Runtime "ErrorObj ''network error''"] by blast
  then show ?thesis
    using b by (intro conjI exI [of _ w']) simp_all
qed

text \<open>
  As the claim is written, \<open>error\<close> is set to the failure message. A failure that is not an
  instance of \<open>Error\<close> has its message dropped: \<open>error\<close> is \<open>Confirm failed\<close>.
\<close>

theorem confirm_failure_keeps_status_counterexample:
  "map_option (error \<circ> state)
     (step latin1Runtime (Completes (ReqConfirm ''1'') (RespError httpFailure))
        (confirm ''1'' serverWorld))
     = Some (Some ''Confirm failed'')
   \<and> failureMessage httpFailure
     = Some ''Http failure response for /api/bookings: 500 Server Error''"
  by (simp add: complete_def confirm_def Let_def httpFailure_def serverWorld_def newWorld_def
      initialState_def bookingA_def bookingB_def)

subsection \<open>Delete and its rollback\<close>

lemma find_append_server:
  "b \<in> set ys \<Longrightarrow> P b \<Longrightarrow> \<exists>c. find P (xs @ ys) = Some c"
  by (cases "find P (xs @ ys)") (auto simp: find_None_iff)

lemma state_delete:
  assumes "find (\<lambda>c. id_b c = i) (localItems (state w) @ serverItems (state w)) = Some bk"
  shows "state (delete i w)
           = (state w)\<lparr> localItems := filter (\<lambda>b. id_b b \<noteq> i) (localItems (state w)),
                         serverItems := filter (\<lambda>b. id_b b \<noteq> i) (serverItems (state w)),
                         error := None,
                         pendingDelete := Some \<lparr> booking = bk, timerId = nextTimerId w \<rparr> \<rparr>"
  by (simp add: delete_def Let_def assms split: option.split)

lemma timers_delete:
  assumes "find (\<lambda>c. id_b c = i) (localItems (state w) @ serverItems (state w)) = Some bk"
  shows "timers (delete i w)
           = (case pendingDelete (state w) of
                None \<Rightarrow> timers w
              | Some prev \<Rightarrow> removeAll (timerId prev) (timers w)) @ [nextTimerId w]"
  by (simp add: delete_def Let_def assms split: option.split)

lemma inflight_delete:
  assumes "find (\<lambda>c. id_b c = i) (localItems (state w) @ serverItems (state w)) = Some bk"
  shows "inflight (delete i w)
           = (if list_ex (\<lambda>b. id_b b = i) (serverItems (state w))
              then inflight w @ [ReqDelete i (state w) (nextTimerId w)]
              else inflight w)"
  by (simp add: delete_def Let_def assms split: option.split)

lemma complete_delete_error:
  assumes "ReqDelete i s0 t \<in> set (inflight w)"
  shows "\<exists>w'. complete (ReqDelete i s0 t) (RespError e) w = Some w'
           \<and> state w' = s0\<lparr> error := Some (errorMessage e ''Delete failed''), pendingDelete := None \<rparr>
           \<and> timers w' = removeAll t (timers w)"
  using assms by (simp add: complete_def)

text \<open>
  C2 (delete rollback), as amended. For every booking in \<open>serverItems\<close>, when \<open>delete(id)\<close>
  is called with its id and the delete request fails, the expiry timer that the call
  started is no longer pending, and the state is the snapshot taken at the call except
  for \<open>pendingDelete\<close>, which is null, and \<open>error\<close>; so \<open>items\<close> is what it was before the
  call. \<open>error\<close> is the message of the failure when the failure is an instance of \<open>Error\<close>,
  the fixed text \<open>Delete failed\<close> when it is anything else.
\<close>

theorem delete_rollback:
  assumes "b \<in> set (serverItems (state w))" and "id_b b = i"
  shows "\<exists>w'. step rt (Completes (ReqDelete i (state w) (nextTimerId w)) (RespError e)) (delete i w)
                = Some w'
          \<and> state w' = (state w)\<lparr> error := Some (case e of ErrorObj m \<Rightarrow> m | OtherFailure x \<Rightarrow> ''Delete failed''),
                                   pendingDelete := None \<rparr>
          \<and> nextTimerId w \<notin> set (timers w')
          \<and> set (map id_b (items (state w'))) = set (map id_b (items (state w)))
          \<and> items (state w') = items (state w)
          \<and> pendingDelete (state w') = None
          \<and> error (state w') = Some (case e of ErrorObj m \<Rightarrow> m | OtherFailure x \<Rightarrow> ''Delete failed'')"
proof -
  let ?r = "ReqDelete i (state w) (nextTimerId w)"
  have ex: "list_ex (\<lambda>c. id_b c = i) (serverItems (state w))"
    unfolding list_ex_iff using assms by blast
  obtain bk where bk: "find (\<lambda>c. id_b c = i) (localItems (state w) @ serverItems (state w)) = Some bk"
    using find_append_server [of b "serverItems (state w)" "\<lambda>c. id_b c = i"] assms by blast
  have "?r \<in> set (inflight (delete i w))"
    using ex by (simp add: inflight_delete [OF bk])
  then obtain w' where w': "complete ?r (RespError e) (delete i w) = Some w'"
    and st0: "state w' = (state w)\<lparr> error := Some (errorMessage e ''Delete failed''),
                                      pendingDelete := None \<rparr>"
    and tm: "timers w' = removeAll (nextTimerId w) (timers (delete i w))"
    using complete_delete_error by blast
  have "errorMessage e ''Delete failed''
          = (case e of ErrorObj m \<Rightarrow> m | OtherFailure x \<Rightarrow> ''Delete failed'')"
    by (cases e) simp_all
  with st0 have st: "state w' = (state w)\<lparr> error := Some (case e of ErrorObj m \<Rightarrow> m
                                                               | OtherFailure x \<Rightarrow> ''Delete failed''),
                                               pendingDelete := None \<rparr>"
    by simp
  have stp: "step rt (Completes ?r (RespError e)) (delete i w) = Some w'"
    using w' by simp
  have gone: "nextTimerId w \<notin> set (timers w')"
    unfolding tm by simp
  have its: "items (state w') = items (state w)"
    by (simp add: st items_def)
  have pd: "pendingDelete (state w') = None"
    and err: "error (state w') = Some (case e of ErrorObj m \<Rightarrow> m | OtherFailure x \<Rightarrow> ''Delete failed'')"
    by (simp_all add: st)
  from its have ids: "set (map id_b (items (state w'))) = set (map id_b (items (state w)))"
    by (rule arg_cong)
  from stp st gone ids its pd err show ?thesis
    by blast
qed

theorem delete_rollback_witness:
  "bookingB \<in> set (serverItems (state serverWorld))
   \<and> (\<exists>w'. step latin1Runtime (Completes (ReqDelete ''2'' (state serverWorld) (nextTimerId serverWorld))
                                    (RespError (ErrorObj ''network error'')))
                (delete ''2'' serverWorld) = Some w'
          \<and> serverItems (state w') = [bookingA, bookingB]
          \<and> pendingDelete (state w') = None
          \<and> error (state w') = Some ''network error'')"
proof -
  have b: "bookingB \<in> set (serverItems (state serverWorld))"
    by (simp add: serverWorld_def newWorld_def)
  have i: "id_b bookingB = ''2''"
    by (simp add: bookingB_def)
  obtain w' where
    "step latin1Runtime (Completes (ReqDelete ''2'' (state serverWorld) (nextTimerId serverWorld))
                             (RespError (ErrorObj ''network error'')))
       (delete ''2'' serverWorld) = Some w'"
    and "state w' = (state serverWorld)\<lparr> error := Some (case ErrorObj ''network error'' of
                                                              ErrorObj m \<Rightarrow> m
                                                            | OtherFailure x \<Rightarrow> ''Delete failed''),
                                            pendingDelete := None \<rparr>"
    using delete_rollback [OF b i, of latin1Runtime "ErrorObj ''network error''"] by blast
  then show ?thesis
    using b by (intro conjI exI [of _ w']) (simp_all add: serverWorld_def newWorld_def)
qed

text \<open>
  As the claim is written, \<open>error\<close> is set to the failure message. A failure that is not an
  instance of \<open>Error\<close> has its message dropped: \<open>error\<close> is \<open>Delete failed\<close>.
\<close>

theorem delete_rollback_counterexample:
  "map_option (error \<circ> state)
     (step latin1Runtime
        (Completes (ReqDelete ''2'' (state serverWorld) (nextTimerId serverWorld))
                   (RespError httpFailure))
        (delete ''2'' serverWorld))
     = Some (Some ''Delete failed'')
   \<and> failureMessage httpFailure
     = Some ''Http failure response for /api/bookings: 500 Server Error''"
  by (simp add: complete_def delete_def Let_def httpFailure_def serverWorld_def newWorld_def
      initialState_def bookingA_def bookingB_def)

subsection \<open>Undo of a delete\<close>

text \<open>
  C4 (undo round-trip), as amended. When \<open>delete(id)\<close> finds a booking, that is the first
  booking with this id in \<open>localItems\<close> followed by \<open>serverItems\<close> (the only one when ids
  are unique), then \<open>delete(id)\<close> followed at once by \<open>undoDelete()\<close> gives a state in which
  this booking, unchanged, is the head of \<open>localItems\<close>, whatever collection it came from,
  and so is among the items; it is visible under the current filter and query if it
  was; \<open>pendingDelete\<close> is null, the page is 1 and the expiry timer is cleared. All
  other bookings with this id are removed from both collections.
\<close>

theorem undo_round_trip:
  assumes "find (\<lambda>c. id_b c = i) (items (state w)) = Some b"
  shows "localItems (state (undoDelete (delete i w)))
           = b # filter (\<lambda>c. id_b c \<noteq> i) (localItems (state w))
         \<and> serverItems (state (undoDelete (delete i w)))
           = filter (\<lambda>c. id_b c \<noteq> i) (serverItems (state w))
         \<and> b \<in> set (items (state (undoDelete (delete i w))))
         \<and> id_b b = i
         \<and> (b \<in> set (visibleItems rt (state w))
              \<longrightarrow> b \<in> set (visibleItems rt (state (undoDelete (delete i w)))))
         \<and> pendingDelete (state (undoDelete (delete i w))) = None
         \<and> page (state (undoDelete (delete i w))) = Fin 1
         \<and> nextTimerId w \<notin> set (timers (undoDelete (delete i w)))"
proof -
  have idb: "id_b b = i"
    using assms by (auto simp: find_Some_iff)
  have st: "state (undoDelete (delete i w))
      = (state w)\<lparr> localItems := b # filter (\<lambda>c. id_b c \<noteq> i) (localItems (state w)),
                   serverItems := filter (\<lambda>c. id_b c \<noteq> i) (serverItems (state w)),
                   error := None, pendingDelete := None, page := Fin 1 \<rparr>"
    using assms by (simp add: delete_def undoDelete_def Let_def items_def split: option.split)
  have tm: "nextTimerId w \<notin> set (timers (undoDelete (delete i w)))"
    using assms by (simp add: delete_def undoDelete_def Let_def items_def split: option.split)
  have vis: "b \<in> set (visibleItems rt (state w))
              \<longrightarrow> b \<in> set (visibleItems rt (state (undoDelete (delete i w))))"
    unfolding st by (auto simp: visibleItems_def Let_def)
  show ?thesis
    using idb tm vis by (simp add: st items_def)
qed

theorem undo_round_trip_witness:
  "find (\<lambda>c. id_b c = ''2'') (items (state serverWorld)) = Some bookingB
   \<and> localItems (state (undoDelete (delete ''2'' serverWorld))) = [bookingB]
   \<and> serverItems (state (undoDelete (delete ''2'' serverWorld))) = [bookingA]
   \<and> pendingDelete (state (undoDelete (delete ''2'' serverWorld))) = None
   \<and> page (state (undoDelete (delete ''2'' serverWorld))) = Fin 1"
proof -
  have f: "find (\<lambda>c. id_b c = ''2'') (items (state serverWorld)) = Some bookingB"
    by (simp add: items_def serverWorld_def newWorld_def initialState_def bookingA_def bookingB_def)
  have "filter (\<lambda>c. id_b c \<noteq> ''2'') (localItems (state serverWorld)) = []"
    and "filter (\<lambda>c. id_b c \<noteq> ''2'') (serverItems (state serverWorld)) = [bookingA]"
    by (simp_all add: serverWorld_def newWorld_def initialState_def bookingA_def bookingB_def)
  with f undo_round_trip [OF f] show ?thesis
    by simp
qed

text \<open>
  As the claim is written, for every booking present in either collection, it fails when
  two bookings share an id. Such a state is reached from the initial one by a load that
  returns a booking and an \<open>add\<close> of another booking with the same id: \<open>delete\<close> removes
  both, and \<open>undoDelete\<close> brings back the first one only.
\<close>

theorem undo_round_trip_counterexample:
  "run latin1Runtime [Load, Completes ReqList (RespList [bookingA2]), Add bookingA]
       (newWorld NoItem initialState) = Some dupWorld
   \<and> bookingA2 \<in> set (items (state dupWorld))
   \<and> id_b bookingA2 = ''1''
   \<and> items (state (undoDelete (delete ''1'' dupWorld))) = [bookingA]
   \<and> bookingA2 \<notin> set (items (state (undoDelete (delete ''1'' dupWorld))))"
  by (simp add: load_def complete_def add_def delete_def undoDelete_def updateState_def
      clearTimeout_def newWorld_def dupWorld_def initialState_def bookingA_def bookingA2_def
      items_def Let_def)

subsection \<open>Search\<close>

lemma startsWith_iff: "startsWith h q \<longleftrightarrow> (\<exists>ss. h = q @ ss)"
  by (induction h q rule: startsWith.induct) auto

lemma includes_str_iff: "includes_str h q \<longleftrightarrow> (\<exists>ps ss. h = ps @ q @ ss)"
proof (induction h)
  case Nil
  then show ?case by simp
next
  case (Cons x h)
  have "(\<exists>ps ss. x # h = ps @ q @ ss) \<longleftrightarrow> (\<exists>ss. x # h = q @ ss) \<or> (\<exists>ps ss. h = ps @ q @ ss)"
  proof
    assume "\<exists>ps ss. x # h = ps @ q @ ss"
    then obtain ps ss where e: "x # h = ps @ q @ ss" by blast
    show "(\<exists>ss. x # h = q @ ss) \<or> (\<exists>ps ss. h = ps @ q @ ss)"
    proof (cases ps)
      case Nil
      with e show ?thesis by auto
    next
      case (Cons p ps')
      with e have "h = ps' @ q @ ss" by simp
      then show ?thesis by blast
    qed
  next
    assume "(\<exists>ss. x # h = q @ ss) \<or> (\<exists>ps ss. h = ps @ q @ ss)"
    then show "\<exists>ps ss. x # h = ps @ q @ ss"
    proof
      assume "\<exists>ss. x # h = q @ ss"
      then obtain ss where "x # h = [] @ q @ ss" by auto
      then show ?thesis by blast
    next
      assume "\<exists>ps ss. h = ps @ q @ ss"
      then obtain ps ss where "x # h = (x # ps) @ q @ ss" by auto
      then show ?thesis by blast
    qed
  qed
  with Cons show ?case
    by (simp only: includes_str.simps startsWith_iff)
qed

text \<open>
  C7 (search semantics), as amended. In every state, \<open>visibleItems\<close> is \<open>items\<close>, in order,
  restricted to the bookings that pass the status filter (all of them under \<open>ALL\<close>) and
  whose \<open>customerName\<close>, one space and \<open>address\<close>, put together and lower-cased, contain
  the query, trimmed and lower-cased, as a substring. A query that is empty once trimmed
  and lower-cased matches every item.
\<close>

theorem visibleItems_search:
  "visibleItems rt s
     = filter (\<lambda>b. (filter_st s = F_ALL \<or> statusText (status b) = filterText (filter_st s))
                   \<and> (\<exists>ps ss. toLowerCase rt (customerName b @ '' '' @ address b)
                                 = ps @ toLowerCase rt (trim rt (query s)) @ ss))
         (items s)
   \<and> (toLowerCase rt (trim rt (query s)) = [] \<longrightarrow>
        visibleItems rt s
          = filter (\<lambda>b. filter_st s = F_ALL \<or> statusText (status b) = filterText (filter_st s))
              (items s))"
proof -
  let ?q = "toLowerCase rt (trim rt (query s))"
  let ?st = "\<lambda>b. filter_st s = F_ALL \<or> statusText (status b) = filterText (filter_st s)"
  let ?m = "\<lambda>b. \<exists>ps ss. toLowerCase rt (customerName b @ '' '' @ address b) = ps @ ?q @ ss"
  have filtered: "(if filter_st s = F_ALL then localItems s @ serverItems s
                   else filter (\<lambda>b. statusText (status b) = filterText (filter_st s))
                          (localItems s @ serverItems s))
                  = filter ?st (items s)"
    by (simp add: items_def)
  have any: "?m b" if "?q = []" for b
  proof -
    have "toLowerCase rt (customerName b @ '' '' @ address b)
            = [] @ ?q @ toLowerCase rt (customerName b @ '' '' @ address b)"
      using that by simp
    then show ?thesis by blast
  qed
  have empty: "filter ?m (filter ?st (items s)) = filter ?st (items s)" if "?q = []"
  proof -
    have "filter ?m (filter ?st (items s)) = filter (\<lambda>b. True) (filter ?st (items s))"
      by (rule filter_cong [OF refl]) (simp only: any [OF that])
    then show ?thesis by simp
  qed
  have vis: "visibleItems rt s
               = (if ?q = [] then filter ?st (items s)
                  else filter (\<lambda>b. includes_str (hay rt b) ?q) (filter ?st (items s)))"
    unfolding visibleItems_def Let_def filtered ..
  have "visibleItems rt s = filter ?m (filter ?st (items s))"
  proof (cases "?q = []")
    case True
    then have "visibleItems rt s = filter ?st (items s)"
      by (simp add: vis)
    with empty [OF True] show ?thesis by simp
  next
    case False
    then have "visibleItems rt s
                 = filter (\<lambda>b. includes_str (hay rt b) ?q) (filter ?st (items s))"
      by (simp add: vis)
    then show ?thesis by (simp only: includes_str_iff hay_def)
  qed
  then have main: "visibleItems rt s = filter (\<lambda>b. ?st b \<and> ?m b) (items s)"
    by (simp only: filter_filter conj_commute)
  have "?q = [] \<longrightarrow> visibleItems rt s = filter ?st (items s)"
  proof (rule impI)
    assume "?q = []"
    then show "visibleItems rt s = filter ?st (items s)"
      by (simp add: vis)
  qed
  with main show ?thesis
    by (rule conjI)
qed

theorem visibleItems_search_witness:
  "toLowerCase latin1Runtime (trim latin1Runtime (query ((state serverWorld)\<lparr> query := ''  '' \<rparr>))) = []
   \<and> visibleItems latin1Runtime ((state serverWorld)\<lparr> query := ''  '' \<rparr>) = [bookingA, bookingB]"
proof -
  have q: "toLowerCase latin1Runtime
             (trim latin1Runtime (query ((state serverWorld)\<lparr> query := ''  '' \<rparr>))) = []"
    by (simp add: latin1Runtime_def isWhiteSpace_def)
  have "filter (\<lambda>b. filter_st ((state serverWorld)\<lparr> query := ''  '' \<rparr>) = F_ALL
                   \<or> statusText (status b) = filterText (filter_st ((state serverWorld)\<lparr> query := ''  '' \<rparr>)))
          (items ((state serverWorld)\<lparr> query := ''  '' \<rparr>)) = [bookingA, bookingB]"
    by (simp add: items_def serverWorld_def newWorld_def initialState_def)
  moreover have "visibleItems latin1Runtime ((state serverWorld)\<lparr> query := ''  '' \<rparr>)
      = filter (\<lambda>b. filter_st ((state serverWorld)\<lparr> query := ''  '' \<rparr>) = F_ALL
                   \<or> statusText (status b) = filterText (filter_st ((state serverWorld)\<lparr> query := ''  '' \<rparr>)))
          (items ((state serverWorld)\<lparr> query := ''  '' \<rparr>))"
    using q visibleItems_search [of latin1Runtime "(state serverWorld)\<lparr> query := ''  '' \<rparr>"]
    by blast
  ultimately have "visibleItems latin1Runtime ((state serverWorld)\<lparr> query := ''  '' \<rparr>)
      = [bookingA, bookingB]"
    by (rule trans [rotated])
  with q show ?thesis
    by (rule conjI)
qed

text \<open>
  The scenario of the specification: the query \<open>main st\<close> keeps the booking at
  \<open>123 Main St\<close> and excludes the other one.
\<close>

lemma search_main_st:
  "visibleItems latin1Runtime ((state serverWorld)\<lparr> query := ''main st'' \<rparr>) = [bookingA]"
  by (simp add: visibleItems_def hay_def Let_def latin1Runtime_def lowerChar_def isWhiteSpace_def
      serverWorld_def newWorld_def initialState_def bookingA_def bookingB_def)

text \<open>
  As the claim is written, a substring match of the query against the concatenation of
  \<open>customerName\<close> and \<open>address\<close>, it fails twice on the booking of \<open>ab\<close> at \<open>cd\<close>: the
  query \<open>bc\<close> occurs in the concatenation but the code, which puts a space between the
  two, shows nothing; the query \<open>cd\<close> followed by a space does not occur in it but the
  code, which trims the query, shows the booking.
\<close>

theorem visibleItems_search_counterexample:
  "visibleItems latin1Runtime (initialState\<lparr> serverItems := [bookingC], query := ''bc'' \<rparr>) = []
   \<and> spec_visibleItems latin1Runtime (initialState\<lparr> serverItems := [bookingC], query := ''bc'' \<rparr>)
       = [bookingC]
   \<and> visibleItems latin1Runtime (initialState\<lparr> serverItems := [bookingC], query := ''cd '' \<rparr>)
       = [bookingC]
   \<and> spec_visibleItems latin1Runtime (initialState\<lparr> serverItems := [bookingC], query := ''cd '' \<rparr>)
       = []"
  by (simp add: visibleItems_def spec_visibleItems_def items_def hay_def Let_def latin1Runtime_def
      lowerChar_def isWhiteSpace_def initialState_def bookingC_def)

subsection \<open>Restoring the UI preferences\<close>

lemma getProp_storedField:
  "ui \<noteq> JNull \<Longrightarrow> getProp ui k = Inr (storedField (Parsed ui) k)"
  by (cases ui) (simp_all add: storedField_def)

lemma applyUi_fields:
  assumes "ui \<noteq> JNull"
  shows "applyUi ui s
           = Inr (s\<lparr> filter_st := orElse (validFilter (storedField (Parsed ui) ''filter'')) (filter_st s),
                     sortKey := orElse (validSortKey (storedField (Parsed ui) ''sortKey'')) (sortKey s),
                     sortDir := orElse (validSortDir (storedField (Parsed ui) ''sortDir'')) (sortDir s),
                     pageSize := orElse (validPageSize (storedField (Parsed ui) ''pageSize'')) (pageSize s),
                     query := orElse (validQuery (storedField (Parsed ui) ''query'')) (query s),
                     page := Fin 1 \<rparr>)"
  by (simp add: applyUi_def getProp_storedField [OF assms])

lemma validFilter_cases:
  "orElse (validFilter v) d
     = (if v = Some (JStr ''NEW'') then F_NEW
        else if v = Some (JStr ''CONFIRMED'') then F_CONFIRMED
        else if v = Some (JStr ''ALL'') then F_ALL
        else d)"
  by (auto simp: validFilter_def orElse_def split: option.splits json.splits)

lemma validSortKey_cases:
  "orElse (validSortKey v) d
     = (if v = Some (JStr ''TOTAL'') then TOTAL
        else if v = Some (JStr ''SCHEDULED_AT'') then SCHEDULED_AT
        else d)"
  by (auto simp: validSortKey_def orElse_def split: option.splits json.splits)

lemma validSortDir_cases:
  "orElse (validSortDir v) d
     = (if v = Some (JStr ''ASC'') then ASC
        else if v = Some (JStr ''DESC'') then DESC
        else d)"
  by (auto simp: validSortDir_def orElse_def split: option.splits json.splits)

lemma validPageSize_cases:
  "orElse (validPageSize v) d
     = (case v of Some (JNum n) \<Rightarrow> (if jsLess (Fin 0) n then n else d) | _ \<Rightarrow> d)"
  by (auto simp: validPageSize_def orElse_def split: option.splits json.splits)

lemma validQuery_cases:
  "orElse (validQuery v) d = (case v of Some (JStr q) \<Rightarrow> q | _ \<Rightarrow> d)"
  by (auto simp: validQuery_def orElse_def split: option.splits json.splits)

lemma storedField_unreadable:
  "raw = NoItem \<or> raw = Unparsable \<or> raw = Parsed JNull \<Longrightarrow> storedField raw k = None"
  by (auto simp: storedField_def)

lemma loadUiState_unreadable:
  "raw = NoItem \<or> raw = Unparsable \<or> raw = Parsed JNull \<Longrightarrow> loadUiState raw s = Inr s"
  by (auto simp: loadUiState_def jsonParse_def applyUi_def)

lemma loadUiState_readable:
  "ui \<noteq> JNull \<Longrightarrow> loadUiState (Parsed ui) s = applyUi ui s"
  by (simp add: loadUiState_def jsonParse_def applyUi_fields)

lemma loadUiState_fields:
  "\<exists>s'. loadUiState raw s = Inr s'
        \<and> filter_st s' = orElse (validFilter (storedField raw ''filter'')) (filter_st s)
        \<and> sortKey s' = orElse (validSortKey (storedField raw ''sortKey'')) (sortKey s)
        \<and> sortDir s' = orElse (validSortDir (storedField raw ''sortDir'')) (sortDir s)
        \<and> pageSize s' = orElse (validPageSize (storedField raw ''pageSize'')) (pageSize s)
        \<and> query s' = orElse (validQuery (storedField raw ''query'')) (query s)
        \<and> serverItems s' = serverItems s
        \<and> localItems s' = localItems s
        \<and> (page s = Fin 1 \<longrightarrow> page s' = Fin 1)"
proof (cases "raw = NoItem \<or> raw = Unparsable \<or> raw = Parsed JNull")
  case True
  have none: "validFilter None = None" "validSortKey None = None" "validSortDir None = None"
    "validPageSize None = None" "validQuery None = None"
    by (simp_all add: validFilter_def validSortKey_def validSortDir_def validPageSize_def
        validQuery_def)
  show ?thesis
    by (simp add: loadUiState_unreadable [OF True] storedField_unreadable [OF True] none orElse_def)
next
  case False
  then obtain ui where raw: "raw = Parsed ui" and ui: "ui \<noteq> JNull"
    by (cases raw) auto
  show ?thesis
    unfolding raw by (simp add: loadUiState_readable [OF ui] applyUi_fields [OF ui])
qed

lemma positive_pageSize:
  "jsLess (Fin 0) d \<Longrightarrow> jsLess (Fin 0) (orElse (validPageSize v) d)"
  by (auto simp: validPageSize_def orElse_def split: option.splits json.splits)

text \<open>
  C8 (preference-restore safety), as amended. Whatever is stored (no item, a string that
  does not parse, or any JSON value), the construction of the store raises nothing,
  and each preference of the state is the stored one when that is valid and the initial
  one otherwise: the filter when it is \<open>NEW\<close>, \<open>CONFIRMED\<close> or \<open>ALL\<close>, the sort key when it is
  \<open>TOTAL\<close> or \<open>SCHEDULED_AT\<close>, the direction when it is \<open>ASC\<close> or \<open>DESC\<close>, the page size when
  it is a number above 0, the query when it is a string. So the page size is a positive
  number after the restore; it need not be an integer. The page is 1.
\<close>

theorem restore_safe:
  "\<exists>w. construct raw = Inr w
       \<and> filter_st (state w)
           = (if storedField raw ''filter'' = Some (JStr ''NEW'') then F_NEW
              else if storedField raw ''filter'' = Some (JStr ''CONFIRMED'') then F_CONFIRMED
              else if storedField raw ''filter'' = Some (JStr ''ALL'') then F_ALL
              else filter_st initialState)
       \<and> sortKey (state w)
           = (if storedField raw ''sortKey'' = Some (JStr ''TOTAL'') then TOTAL
              else if storedField raw ''sortKey'' = Some (JStr ''SCHEDULED_AT'') then SCHEDULED_AT
              else sortKey initialState)
       \<and> sortDir (state w)
           = (if storedField raw ''sortDir'' = Some (JStr ''ASC'') then ASC
              else if storedField raw ''sortDir'' = Some (JStr ''DESC'') then DESC
              else sortDir initialState)
       \<and> pageSize (state w)
           = (case storedField raw ''pageSize'' of
                Some (JNum n) \<Rightarrow> (if jsLess (Fin 0) n then n else pageSize initialState)
              | _ \<Rightarrow> pageSize initialState)
       \<and> query (state w)
           = (case storedField raw ''query'' of Some (JStr q) \<Rightarrow> q | _ \<Rightarrow> query initialState)
       \<and> jsLess (Fin 0) (pageSize (state w))
       \<and> page (state w) = Fin 1
       \<and> serverItems (state w) = []
       \<and> localItems (state w) = []"
proof -
  obtain s' where l: "loadUiState raw initialState = Inr s'"
    and f: "filter_st s' = orElse (validFilter (storedField raw ''filter'')) (filter_st initialState)"
    and k: "sortKey s' = orElse (validSortKey (storedField raw ''sortKey'')) (sortKey initialState)"
    and d: "sortDir s' = orElse (validSortDir (storedField raw ''sortDir'')) (sortDir initialState)"
    and n: "pageSize s' = orElse (validPageSize (storedField raw ''pageSize'')) (pageSize initialState)"
    and q: "query s' = orElse (validQuery (storedField raw ''query'')) (query initialState)"
    and sv: "serverItems s' = serverItems initialState"
    and lc: "localItems s' = localItems initialState"
    and pg: "page initialState = Fin 1 \<longrightarrow> page s' = Fin 1"
    using loadUiState_fields [of raw initialState] by blast
  let ?w = "\<lparr> state = s', storage = raw, timers = [], nextTimerId = 1, inflight = [] \<rparr>"
  have c: "construct raw = Inr ?w"
    by (simp add: construct_def l)
  have st: "state ?w = s'"
    by simp
  have pos: "jsLess (Fin 0) (pageSize s')"
    unfolding n by (rule positive_pageSize) (simp add: initialState_def)
  have p1: "page s' = Fin 1"
    using pg by (simp add: initialState_def)
  have e: "serverItems s' = []" "localItems s' = []"
    by (simp_all add: sv lc initialState_def)
  show ?thesis
    apply (rule exI [of _ ?w])
    apply (simp only: st)
    apply (intro conjI)
             apply (rule c)
            apply (simp only: f validFilter_cases)
           apply (simp only: k validSortKey_cases)
          apply (simp only: d validSortDir_cases)
         apply (simp only: n validPageSize_cases)
        apply (simp only: q validQuery_cases)
       apply (rule pos)
      apply (rule p1)
     apply (rule e(1))
    apply (rule e(2))
    done
qed

theorem restore_safe_witness:
  "\<exists>w. construct (Parsed (JObj [(''filter'', JStr ''NEW''), (''sortKey'', JNum (Fin 3)),
                                (''pageSize'', JNum (Fin (- 5))), (''query'', JStr ''main'')]))
          = Inr w
       \<and> filter_st (state w) = F_NEW
       \<and> sortKey (state w) = SCHEDULED_AT
       \<and> sortDir (state w) = DESC
       \<and> pageSize (state w) = Fin 10
       \<and> query (state w) = ''main''"
proof -
  let ?raw = "Parsed (JObj [(''filter'', JStr ''NEW''), (''sortKey'', JNum (Fin 3)),
                            (''pageSize'', JNum (Fin (- 5))), (''query'', JStr ''main'')])"
  have fields: "storedField ?raw ''filter'' = Some (JStr ''NEW'')"
    "storedField ?raw ''sortKey'' = Some (JNum (Fin 3))"
    "storedField ?raw ''sortDir'' = None"
    "storedField ?raw ''pageSize'' = Some (JNum (Fin (- 5)))"
    "storedField ?raw ''query'' = Some (JStr ''main'')"
    by (simp_all add: storedField_def)
  obtain w where "construct ?raw = Inr w"
    and "filter_st (state w)
           = (if storedField ?raw ''filter'' = Some (JStr ''NEW'') then F_NEW
              else if storedField ?raw ''filter'' = Some (JStr ''CONFIRMED'') then F_CONFIRMED
              else if storedField ?raw ''filter'' = Some (JStr ''ALL'') then F_ALL
              else filter_st initialState)"
    and "sortKey (state w)
           = (if storedField ?raw ''sortKey'' = Some (JStr ''TOTAL'') then TOTAL
              else if storedField ?raw ''sortKey'' = Some (JStr ''SCHEDULED_AT'') then SCHEDULED_AT
              else sortKey initialState)"
    and "sortDir (state w)
           = (if storedField ?raw ''sortDir'' = Some (JStr ''ASC'') then ASC
              else if storedField ?raw ''sortDir'' = Some (JStr ''DESC'') then DESC
              else sortDir initialState)"
    and "pageSize (state w)
           = (case storedField ?raw ''pageSize'' of
                Some (JNum n) \<Rightarrow> (if jsLess (Fin 0) n then n else pageSize initialState)
              | _ \<Rightarrow> pageSize initialState)"
    and "query (state w)
           = (case storedField ?raw ''query'' of Some (JStr q) \<Rightarrow> q | _ \<Rightarrow> query initialState)"
    using restore_safe [of ?raw] by blast
  then show ?thesis
    by (intro exI [of _ w]) (simp add: fields initialState_def)
qed

text \<open>
  As the claim is written, the page size is a positive integer after the restore. A
  stored page size of 2.5 is a number above 0: it is taken as it is.
\<close>

theorem restore_safe_counterexample:
  "map_sum id (pageSize \<circ> state) (construct (Parsed (JObj [(''pageSize'', JNum (Fin (5 / 2)))])))
     = Inr (Fin (5 / 2))
   \<and> \<not> isInteger (Fin (5 / 2))"
proof -
  have "\<lfloor>(5::rat) / 2\<rfloor> = 2"
    by (rule floor_unique) simp_all
  then have "\<not> isInteger (Fin (5 / 2))"
    by simp
  moreover have "map_sum id (pageSize \<circ> state)
                   (construct (Parsed (JObj [(''pageSize'', JNum (Fin (5 / 2)))])))
                 = Inr (Fin (5 / 2))"
    by (simp add: construct_def loadUiState_def jsonParse_def applyUi_def validFilter_def
        validSortKey_def validSortDir_def validPageSize_def validQuery_def orElse_def
        initialState_def)
  ultimately show ?thesis
    by simp
qed

subsection \<open>The partition of the ids\<close>

lemma ids_Cons [simp]: "ids (b # xs) = insert (id_b b) (ids xs)"
  by (simp add: ids_def)

lemma ids_Nil [simp]: "ids [] = {}"
  by (simp add: ids_def)

lemma ids_filter: "ids (filter P xs) \<subseteq> ids xs"
  by (auto simp: ids_def)

lemma ids_filter_neq: "i \<notin> ids (filter (\<lambda>b. id_b b \<noteq> i) xs)"
  by (auto simp: ids_def)

lemma ids_map_same:
  assumes "\<And>b. id_b (f b) = id_b b"
  shows "ids (map f xs) = ids xs"
proof -
  have "map id_b (map f xs) = map id_b xs"
    by (simp add: assms)
  then show ?thesis
    by (simp only: ids_def)
qed

lemma ids_confirmed:
  "ids (map (\<lambda>b. if id_b b = i then b\<lparr> status := CONFIRMED \<rparr> else b) xs) = ids xs"
  by (rule ids_map_same) simp

lemma ids_replaced:
  assumes "id_b u = i"
  shows "ids (map (\<lambda>b. if id_b b = i then u else b) xs) = ids xs"
  by (rule ids_map_same) (simp add: assms)

lemma snapshots_append: "snapshots (xs @ ys) = snapshots xs @ snapshots ys"
  by (induction xs rule: snapshots.induct) simp_all

lemma in_snapshots: "s0 \<in> set (snapshots rs) \<longleftrightarrow> (\<exists>i t. ReqDelete i s0 t \<in> set rs)"
  by (induction rs rule: snapshots.induct) auto

lemma snapshots_remove1: "set (snapshots (remove1 r rs)) \<subseteq> set (snapshots rs)"
proof
  fix s0
  assume "s0 \<in> set (snapshots (remove1 r rs))"
  then obtain i t where "ReqDelete i s0 t \<in> set (remove1 r rs)"
    unfolding in_snapshots by blast
  then have "ReqDelete i s0 t \<in> set rs"
    using set_remove1_subset [of r rs] by blast
  then show "s0 \<in> set (snapshots rs)"
    unfolding in_snapshots by blast
qed

lemma snapshots_remove1_all:
  "list_all P (snapshots rs) \<Longrightarrow> list_all P (snapshots (remove1 r rs))"
  using snapshots_remove1 [of r rs] unfolding list_all_iff by blast

lemma pendingId_None [simp]: "pendingDelete s = None \<Longrightarrow> pendingId s = {}"
  by (simp add: pendingId_def)

lemma pendingId_Some [simp]: "pendingDelete s = Some pd \<Longrightarrow> pendingId s = {id_b (booking pd)}"
  by (simp add: pendingId_def)

text \<open>A step that leaves the two collections and the snapshots alone, and does not
  put a booking in the undo slot, keeps the invariant.\<close>

lemma storeInv_frame:
  assumes "storeInv w"
    and "localItems (state w') = localItems (state w)"
    and "serverItems (state w') = serverItems (state w)"
    and "pendingId (state w') \<subseteq> pendingId (state w)"
    and "set (snapshots (inflight w')) \<subseteq> set (snapshots (inflight w))"
  shows "storeInv w'"
proof -
  from assms(1) have p: "partitioned (state w)"
    and q: "pendingId (state w) \<inter> ids (serverItems (state w)) = {}"
    and r: "list_all partitioned (snapshots (inflight w))"
    by (simp_all add: storeInv_def)
  have "partitioned (state w')"
    using p by (simp add: partitioned_def assms(2,3))
  moreover have "pendingId (state w') \<inter> ids (serverItems (state w')) = {}"
    using q assms(4) unfolding assms(3) by blast
  moreover have "list_all partitioned (snapshots (inflight w'))"
    using r assms(5) unfolding list_all_iff by blast
  ultimately show ?thesis
    by (simp add: storeInv_def)
qed

lemma pendingId_unchanged:
  "pendingDelete s' = pendingDelete s \<Longrightarrow> pendingId s' \<subseteq> pendingId s"
  by (simp add: pendingId_def)

lemma storeInv_setQuery: "storeInv w \<Longrightarrow> storeInv (setQuery q w)"
  unfolding setQuery_def
  by (rule storeInv_frame [of w]) (simp_all add: pendingId_def)

lemma storeInv_setPage: "storeInv w \<Longrightarrow> storeInv (setPage p w)"
  unfolding setPage_def
  by (rule storeInv_frame [of w]) (simp_all add: pendingId_def)

lemma storeInv_nextPage: "storeInv w \<Longrightarrow> storeInv (nextPage rt w)"
  unfolding nextPage_def Let_def
  by (rule storeInv_frame [of w]) (simp_all add: pendingId_def)

lemma storeInv_prevPage: "storeInv w \<Longrightarrow> storeInv (prevPage w)"
  unfolding prevPage_def
  by (rule storeInv_frame [of w]) (simp_all add: pendingId_def)

lemma storeInv_setSort: "storeInv w \<Longrightarrow> storeInv (setSort k w)"
  unfolding setSort_def
  by (rule storeInv_frame [of w]) (simp_all add: pendingId_def Let_def)

lemma storeInv_setPageSize: "storeInv w \<Longrightarrow> storeInv (setPageSize n w)"
  unfolding setPageSize_def
  by (rule storeInv_frame [of w]) (simp_all add: pendingId_def)

lemma storeInv_setFilter: "storeInv w \<Longrightarrow> storeInv (setFilter f w)"
  unfolding setFilter_def
  by (rule storeInv_frame [of w]) (simp_all add: pendingId_def)

lemma storeInv_load: "storeInv w \<Longrightarrow> storeInv (load w)"
  unfolding load_def Let_def
  by (rule storeInv_frame [of w]) (simp_all add: pendingId_def snapshots_append)

lemma storeInv_create: "storeInv w \<Longrightarrow> storeInv (create r w)"
  unfolding create_def Let_def
  by (rule storeInv_frame [of w]) (simp_all add: pendingId_def snapshots_append)

lemma storeInv_timerFires: "storeInv w \<Longrightarrow> timerFires t w = Some w' \<Longrightarrow> storeInv w'"
  unfolding timerFires_def
  by (rule storeInv_frame [of w]) (auto simp: pendingId_def split: if_splits)

lemma storeInvI:
  assumes "ids (localItems (state w)) \<inter> ids (serverItems (state w)) = {}"
    and "pendingId (state w) \<inter> ids (serverItems (state w)) = {}"
    and "list_all partitioned (snapshots (inflight w))"
  shows "storeInv w"
  using assms by (simp add: storeInv_def partitioned_def)

lemma storeInvD:
  assumes "storeInv w"
  shows "ids (localItems (state w)) \<inter> ids (serverItems (state w)) = {}"
    and "pendingId (state w) \<inter> ids (serverItems (state w)) = {}"
    and "list_all partitioned (snapshots (inflight w))"
  using assms by (simp_all add: storeInv_def partitioned_def)

lemma storeInv_add:
  assumes "storeInv w" and "id_b b \<notin> ids (serverItems (state w))"
  shows "storeInv (add b w)"
proof (rule storeInvI)
  show "ids (localItems (state (add b w))) \<inter> ids (serverItems (state (add b w))) = {}"
    using storeInvD(1) [OF assms(1)] assms(2) by (simp add: add_def)
  show "pendingId (state (add b w)) \<inter> ids (serverItems (state (add b w))) = {}"
    using storeInvD(2) [OF assms(1)] by (simp add: add_def pendingId_def)
  show "list_all partitioned (snapshots (inflight (add b w)))"
    using storeInvD(3) [OF assms(1)] by (simp add: add_def)
qed

lemma storeInv_confirm:
  assumes "storeInv w"
  shows "storeInv (confirm i w)"
proof (rule storeInvI)
  let ?f = "\<lambda>b. if id_b b = i then b\<lparr> status := CONFIRMED \<rparr> else b"
  have st: "state (confirm i w)
              = (state w)\<lparr> localItems := map ?f (localItems (state w)),
                            serverItems := map ?f (serverItems (state w)),
                            error := None \<rparr>"
    by (simp add: confirm_def Let_def)
  have sn: "snapshots (inflight (confirm i w)) = snapshots (inflight w)"
    by (simp add: confirm_def Let_def snapshots_append)
  show "ids (localItems (state (confirm i w))) \<inter> ids (serverItems (state (confirm i w))) = {}"
    using storeInvD(1) [OF assms] by (simp add: st ids_confirmed)
  show "pendingId (state (confirm i w)) \<inter> ids (serverItems (state (confirm i w))) = {}"
    using storeInvD(2) [OF assms] by (simp add: st ids_confirmed pendingId_def)
  show "list_all partitioned (snapshots (inflight (confirm i w)))"
    using storeInvD(3) [OF assms] by (simp only: sn)
qed

lemma storeInv_undoDelete:
  assumes "storeInv w"
  shows "storeInv (undoDelete w)"
proof (cases "pendingDelete (state w)")
  case None
  then have "undoDelete w = w"
    by (simp add: undoDelete_def)
  with assms show ?thesis by simp
next
  case (Some pd)
  have st: "state (undoDelete w)
              = (state w)\<lparr> localItems := booking pd # localItems (state w),
                            pendingDelete := None, page := Fin 1 \<rparr>"
    and fl: "inflight (undoDelete w) = inflight w"
    by (simp_all add: undoDelete_def Some)
  have fresh: "id_b (booking pd) \<notin> ids (serverItems (state w))"
    using storeInvD(2) [OF assms] by (simp add: pendingId_def Some)
  show ?thesis
  proof (rule storeInvI)
    show "ids (localItems (state (undoDelete w))) \<inter> ids (serverItems (state (undoDelete w))) = {}"
      using storeInvD(1) [OF assms] fresh by (simp add: st)
    show "pendingId (state (undoDelete w)) \<inter> ids (serverItems (state (undoDelete w))) = {}"
      by (simp add: st pendingId_def)
    show "list_all partitioned (snapshots (inflight (undoDelete w)))"
      using storeInvD(3) [OF assms] by (simp only: fl)
  qed
qed

lemma delete_absent:
  "find (\<lambda>c. id_b c = i) (localItems (state w) @ serverItems (state w)) = None \<Longrightarrow> delete i w = w"
  by (simp add: delete_def Let_def)

lemma storeInv_delete:
  assumes "storeInv w"
  shows "storeInv (delete i w)"
proof (cases "find (\<lambda>c. id_b c = i) (localItems (state w) @ serverItems (state w))")
  case None
  with assms show ?thesis by (simp add: delete_absent)
next
  case (Some bk)
  have idb: "id_b bk = i"
    using Some by (auto simp: find_Some_iff)
  note st = state_delete [OF Some]
  have loc: "localItems (state (delete i w)) = filter (\<lambda>b. id_b b \<noteq> i) (localItems (state w))"
    and srv: "serverItems (state (delete i w)) = filter (\<lambda>b. id_b b \<noteq> i) (serverItems (state w))"
    and pd: "pendingId (state (delete i w)) = {i}"
    by (simp_all add: st pendingId_def idb)
  show ?thesis
  proof (rule storeInvI)
    show "ids (localItems (state (delete i w))) \<inter> ids (serverItems (state (delete i w))) = {}"
      unfolding loc srv
      using storeInvD(1) [OF assms] ids_filter [of "\<lambda>b. id_b b \<noteq> i" "localItems (state w)"]
        ids_filter [of "\<lambda>b. id_b b \<noteq> i" "serverItems (state w)"]
      by blast
    show "pendingId (state (delete i w)) \<inter> ids (serverItems (state (delete i w))) = {}"
      unfolding pd srv using ids_filter_neq [of i "serverItems (state w)"] by simp
    have "partitioned (state w)"
      using assms by (simp add: storeInv_def)
    then show "list_all partitioned (snapshots (inflight (delete i w)))"
      using storeInvD(3) [OF assms] by (simp add: inflight_delete [OF Some] snapshots_append)
  qed
qed

lemma storeInv_inflight:
  assumes "storeInv w" and "set (snapshots rs) \<subseteq> set (snapshots (inflight w))"
  shows "storeInv (w\<lparr> inflight := rs \<rparr>)"
  using assms(1) by (rule storeInv_frame) (simp_all add: assms(2))

lemma storeInv_onResponse:
  assumes "storeInv w"
    and "idsRespected (Completes r x) w"
    and "\<And>i s0 t. r = ReqDelete i s0 t \<Longrightarrow> partitioned s0"
    and "onResponse r x w = Some w'"
  shows "storeInv w'"
proof (cases r)
  case ReqList
  show ?thesis
  proof (cases x)
    case (RespList xs)
    have w': "w' = updateState (\<lambda>s. s\<lparr> serverItems := xs, loading := False \<rparr>) w"
      using assms(4) by (simp add: ReqList RespList)
    have g: "ids xs \<inter> (ids (localItems (state w)) \<union> pendingId (state w)) = {}"
      using assms(2) by (simp add: ReqList RespList)
    show ?thesis
    proof (rule storeInvI)
      show "ids (localItems (state w')) \<inter> ids (serverItems (state w')) = {}"
        using g by (auto simp: w')
      show "pendingId (state w') \<inter> ids (serverItems (state w')) = {}"
        using g by (auto simp: w' pendingId_def)
      show "list_all partitioned (snapshots (inflight w'))"
        using storeInvD(3) [OF assms(1)] by (simp add: w')
    qed
  next
    case (RespError e)
    have w': "w' = updateState (\<lambda>s. s\<lparr> error := Some (errorMessage e ''Unknown error''),
                                        loading := False \<rparr>) w"
      using assms(4) by (simp add: ReqList RespError)
    show ?thesis
      unfolding w' using assms(1) by (rule storeInv_frame) (simp_all add: pendingId_def)
  qed (use assms(4) ReqList in simp_all)
next
  case (ReqCreate q)
  show ?thesis
  proof (cases x)
    case (RespBooking c)
    have w': "w' = updateState (\<lambda>s. s\<lparr> serverItems := c # serverItems s,
                                        loading := False, page := Fin 1 \<rparr>) w"
      using assms(4) by (simp add: ReqCreate RespBooking)
    have g: "id_b c \<notin> ids (localItems (state w)) \<union> pendingId (state w)"
      using assms(2) by (simp add: ReqCreate RespBooking)
    show ?thesis
    proof (rule storeInvI)
      show "ids (localItems (state w')) \<inter> ids (serverItems (state w')) = {}"
        using g storeInvD(1) [OF assms(1)] by (auto simp: w')
      show "pendingId (state w') \<inter> ids (serverItems (state w')) = {}"
        using g storeInvD(2) [OF assms(1)] by (auto simp: w' pendingId_def)
      show "list_all partitioned (snapshots (inflight w'))"
        using storeInvD(3) [OF assms(1)] by (simp add: w')
    qed
  next
    case (RespError e)
    have w': "w' = updateState (\<lambda>s. s\<lparr> error := Some (errorMessage e ''Create failed''),
                                        loading := False \<rparr>) w"
      using assms(4) by (simp add: ReqCreate RespError)
    show ?thesis
      unfolding w' using assms(1) by (rule storeInv_frame) (simp_all add: pendingId_def)
  qed (use assms(4) ReqCreate in simp_all)
next
  case (ReqConfirm i)
  show ?thesis
  proof (cases x)
    case (RespBooking u)
    have w': "w' = updateState (\<lambda>s. s\<lparr> serverItems := map (\<lambda>b. if id_b b = i then u else b)
                                                           (serverItems s) \<rparr>) w"
      using assms(4) by (simp add: ReqConfirm RespBooking)
    have g: "id_b u = i"
      using assms(2) by (simp add: ReqConfirm RespBooking)
    show ?thesis
    proof (rule storeInvI)
      show "ids (localItems (state w')) \<inter> ids (serverItems (state w')) = {}"
        using storeInvD(1) [OF assms(1)] by (simp add: w' ids_replaced [OF g])
      show "pendingId (state w') \<inter> ids (serverItems (state w')) = {}"
        using storeInvD(2) [OF assms(1)] by (simp add: w' ids_replaced [OF g] pendingId_def)
      show "list_all partitioned (snapshots (inflight w'))"
        using storeInvD(3) [OF assms(1)] by (simp add: w')
    qed
  next
    case (RespError e)
    have w': "w' = updateState (\<lambda>s. s\<lparr> error := Some (errorMessage e ''Confirm failed'') \<rparr>) w"
      using assms(4) by (simp add: ReqConfirm RespError)
    show ?thesis
      unfolding w' using assms(1) by (rule storeInv_frame) (simp_all add: pendingId_def)
  qed (use assms(4) ReqConfirm in simp_all)
next
  case (ReqDelete i s0 t)
  have p0: "partitioned s0"
    using assms(3) ReqDelete by blast
  show ?thesis
  proof (cases x)
    case RespOk
    then have "w' = w"
      using assms(4) by (simp add: ReqDelete)
    with assms(1) show ?thesis by simp
  next
    case (RespError e)
    have w': "w' = updateState (\<lambda>s. s0\<lparr> error := Some (errorMessage e ''Delete failed''),
                                         pendingDelete := None \<rparr>) (clearTimeout t w)"
      using assms(4) by (simp add: ReqDelete RespError)
    show ?thesis
    proof (rule storeInvI)
      show "ids (localItems (state w')) \<inter> ids (serverItems (state w')) = {}"
        using p0 by (simp add: w' partitioned_def)
      show "pendingId (state w') \<inter> ids (serverItems (state w')) = {}"
        by (simp add: w' pendingId_def)
      show "list_all partitioned (snapshots (inflight w'))"
        using storeInvD(3) [OF assms(1)] by (simp add: w')
    qed
  qed (use assms(4) ReqDelete in simp_all)
qed

lemma storeInv_complete:
  assumes "storeInv w"
    and "idsRespected (Completes r x) w"
    and "complete r x w = Some w'"
  shows "storeInv w'"
proof -
  let ?w1 = "w\<lparr> inflight := remove1 r (inflight w) \<rparr>"
  have mem: "r \<in> set (inflight w)"
    using assms(3) by (simp add: complete_def split: if_splits)
  then have on: "onResponse r x ?w1 = Some w'"
    using assms(3) by (simp add: complete_def)
  have inv1: "storeInv ?w1"
    using assms(1) snapshots_remove1 by (rule storeInv_inflight)
  have st1: "state ?w1 = state w"
    by simp
  have g1: "idsRespected (Completes r x) ?w1"
    using assms(2) by (cases "(Completes r x, w)" rule: idsRespected.cases) simp_all
  have snap: "partitioned s0" if "r = ReqDelete i s0 t" for i s0 t
  proof -
    have "s0 \<in> set (snapshots (inflight w))"
      unfolding in_snapshots using mem that by blast
    then show ?thesis
      using storeInvD(3) [OF assms(1)] unfolding list_all_iff by blast
  qed
  show ?thesis
    using inv1 g1 snap on by (rule storeInv_onResponse)
qed

lemma storeInv_step:
  assumes "storeInv w" and "idsRespected e w" and "step rt e w = Some w'"
  shows "storeInv w'"
proof (cases e)
  case Load
  with assms show ?thesis by (auto intro: storeInv_load)
next
  case (Add b)
  with assms show ?thesis by (auto intro: storeInv_add)
next
  case (Create r)
  with assms show ?thesis by (auto intro: storeInv_create)
next
  case (Confirm i)
  with assms show ?thesis by (auto intro: storeInv_confirm)
next
  case (Delete i)
  with assms show ?thesis by (auto intro: storeInv_delete)
next
  case UndoDelete
  with assms show ?thesis by (auto intro: storeInv_undoDelete)
next
  case (SetQuery q)
  with assms show ?thesis by (auto intro: storeInv_setQuery)
next
  case (SetPage p)
  with assms show ?thesis by (auto intro: storeInv_setPage)
next
  case NextPage
  with assms show ?thesis by (auto intro: storeInv_nextPage)
next
  case PrevPage
  with assms show ?thesis by (auto intro: storeInv_prevPage)
next
  case (SetSort k)
  with assms show ?thesis by (auto intro: storeInv_setSort)
next
  case (SetPageSize n)
  with assms show ?thesis by (auto intro: storeInv_setPageSize)
next
  case (SetFilter f)
  with assms show ?thesis by (auto intro: storeInv_setFilter)
next
  case (Completes r x)
  with assms(3) have "complete r x w = Some w'" by simp
  with assms(1,2) show ?thesis
    unfolding Completes by (rule storeInv_complete)
next
  case (TimerFires t)
  with assms(3) have "timerFires t w = Some w'" by simp
  with assms(1) show ?thesis by (rule storeInv_timerFires)
qed

lemma storeInv_run:
  "storeInv w \<Longrightarrow> allRespected rt es w \<Longrightarrow> run rt es w = Some w' \<Longrightarrow> storeInv w'"
proof (induction es arbitrary: w)
  case Nil
  then show ?case by simp
next
  case (Cons e es)
  from Cons.prems(3) obtain w1 where s: "step rt e w = Some w1" and r: "run rt es w1 = Some w'"
    by (auto split: option.splits)
  from Cons.prems(2) s have g: "idsRespected e w" and a: "allRespected rt es w1"
    by simp_all
  have "storeInv w1"
    using Cons.prems(1) g s by (rule storeInv_step)
  then show ?case
    using a r by (rule Cons.IH)
qed

lemma storeInv_construct:
  assumes "construct raw = Inr w"
  shows "storeInv w"
proof -
  obtain s' where l: "loadUiState raw initialState = Inr s'"
    and sv: "serverItems s' = serverItems initialState"
    and lc: "localItems s' = localItems initialState"
    using loadUiState_fields [of raw initialState] by blast
  have w: "w = \<lparr> state = s', storage = raw, timers = [], nextTimerId = 1, inflight = [] \<rparr>"
    using assms by (simp add: construct_def l)
  have "pendingDelete s' = None"
    using l by (auto simp: loadUiState_def jsonParse_def applyUi_def initialState_def
        split: if_splits stored.splits sum.splits)
  then show ?thesis
    by (simp add: w storeInv_def partitioned_def sv lc initialState_def)
qed

text \<open>Every operation of the store can be called in every world: only a response to a
  request that is not in flight and the expiry of a timer that is not pending are no
  steps.\<close>

lemma step_operation:
  "step rt e w = None \<Longrightarrow> (\<exists>r x. e = Completes r x) \<or> (\<exists>t. e = TimerFires t)"
  by (cases e) simp_all

text \<open>
  C1 (partition invariant), as amended. The store checks no id, so the ids of \<open>localItems\<close>
  and of \<open>serverItems\<close> are disjoint only as far as its surroundings keep them so: in
  every state reached from the initial state (whatever preferences are stored) by the
  operations of the store, the responses of the adapter and the expiry timer, provided
  that each \<open>add\<close> is called with an id that is not in \<open>serverItems\<close>, each list response
  has no id that is in \<open>localItems\<close> or held for undo, each create response has an id
  that is neither in \<open>localItems\<close> nor held for undo, and each confirm response has the
  id that was confirmed.
\<close>

theorem partition_invariant:
  assumes "construct raw = Inr w0"
    and "allRespected rt es w0"
    and "run rt es w0 = Some w"
  shows "set (map id_b (localItems (state w))) \<inter> set (map id_b (serverItems (state w))) = {}"
proof -
  have "storeInv w0"
    using assms(1) by (rule storeInv_construct)
  then have "storeInv w"
    using assms(2,3) by (rule storeInv_run)
  then show ?thesis
    by (simp add: storeInv_def partitioned_def ids_def)
qed

theorem partition_invariant_witness:
  "construct NoItem = Inr (newWorld NoItem initialState)
   \<and> allRespected latin1Runtime
        [Load, Completes ReqList (RespList [bookingA, bookingB]), Delete ''2'', UndoDelete,
         NextPage, Add bookingC]
        (newWorld NoItem initialState)
   \<and> (\<exists>w. run latin1Runtime
              [Load, Completes ReqList (RespList [bookingA, bookingB]), Delete ''2'', UndoDelete,
               NextPage, Add bookingC]
              (newWorld NoItem initialState) = Some w
          \<and> localItems (state w) = [bookingC, bookingB]
          \<and> serverItems (state w) = [bookingA]
          \<and> set (map id_b (localItems (state w))) \<inter> set (map id_b (serverItems (state w))) = {})"
proof -
  let ?es = "[Load, Completes ReqList (RespList [bookingA, bookingB]), Delete ''2'', UndoDelete,
              NextPage, Add bookingC]"
  let ?w0 = "newWorld NoItem initialState"
  have c: "construct NoItem = Inr ?w0"
    by (simp add: construct_def loadUiState_def newWorld_def)
  have a: "allRespected latin1Runtime ?es ?w0"
    by (simp add: load_def complete_def delete_def undoDelete_def nextPage_def add_def
        updateState_def clearTimeout_def newWorld_def initialState_def pendingId_def
        bookingA_def bookingB_def bookingC_def Let_def)
  obtain w where r: "run latin1Runtime ?es ?w0 = Some w"
    and l: "localItems (state w) = [bookingC, bookingB]"
    and s: "serverItems (state w) = [bookingA]"
    by (simp add: load_def complete_def delete_def undoDelete_def nextPage_def add_def
        updateState_def clearTimeout_def newWorld_def initialState_def
        bookingA_def bookingB_def Let_def)
  from partition_invariant [OF c a r] r l s c a show ?thesis
    by blast
qed

text \<open>
  As the claim is written, for every state reachable by the operations of the store, it
  fails: after a load that returns a booking, \<open>add\<close> of a booking with the same id puts
  the id in both collections.
\<close>

theorem partition_invariant_counterexample:
  "construct NoItem = Inr (newWorld NoItem initialState)
   \<and> map_option (partitioned \<circ> state)
       (run latin1Runtime [Load, Completes ReqList (RespList [bookingA]), Add bookingA]
          (newWorld NoItem initialState))
     = Some False"
  by (simp add: construct_def loadUiState_def load_def complete_def add_def updateState_def
      newWorld_def initialState_def partitioned_def bookingA_def Let_def)

text \<open>
  None of the four provisos can be dropped: a list response with an id of \<open>localItems\<close>,
  a list response with the id held for undo followed by the undo, a create response with
  an id of \<open>localItems\<close>, and a confirm response with another id each break the partition
  in a run that respects the other provisos.
\<close>

lemma partition_provisos_needed:
  "map_option (partitioned \<circ> state)
     (run latin1Runtime [Add bookingA, Load, Completes ReqList (RespList [bookingA2])]
        (newWorld NoItem initialState)) = Some False"
  "map_option (partitioned \<circ> state)
     (run latin1Runtime
        [Load, Completes ReqList (RespList [bookingB]), Delete ''2'',
         Load, Completes ReqList (RespList [bookingB]), UndoDelete]
        (newWorld NoItem initialState)) = Some False"
  "map_option (partitioned \<circ> state)
     (run latin1Runtime
        [Add bookingA, Create requestC, Completes (ReqCreate requestC) (RespBooking bookingA2)]
        (newWorld NoItem initialState)) = Some False"
  "map_option (partitioned \<circ> state)
     (run latin1Runtime
        [Add bookingA, Load, Completes ReqList (RespList [bookingB]), Confirm ''2'',
         Completes (ReqConfirm ''2'') (RespBooking bookingA2)]
        (newWorld NoItem initialState)) = Some False"
  by (simp_all add: load_def create_def confirm_def delete_def undoDelete_def complete_def add_def
      updateState_def clearTimeout_def newWorld_def initialState_def partitioned_def
      bookingA_def bookingA2_def bookingB_def requestC_def Let_def)

subsection \<open>Scenarios of the specification\<close>

text \<open>
  Two scenarios of the specification. Under the filter \<open>NEW\<close> only the new booking is
  visible. With a page size of 1 and the order by total, descending, the first page has
  the booking of the higher total, and \<open>nextPage\<close> leads to the other one.
\<close>

lemma filter_new_scenario:
  "visibleItems latin1Runtime (state (setFilter F_NEW serverWorld)) = [bookingA]"
  by (simp add: visibleItems_def setFilter_def Let_def latin1Runtime_def isWhiteSpace_def
      serverWorld_def newWorld_def initialState_def bookingA_def bookingB_def)

lemma paging_scenario:
  "pagedSortedVisibleItems latin1Runtime (state (setSort TOTAL (setPageSize (Fin 1) serverWorld)))
     = [bookingB]"
  "pagedSortedVisibleItems latin1Runtime
     (state (nextPage latin1Runtime (setSort TOTAL (setPageSize (Fin 1) serverWorld))))
     = [bookingA]"
  by (simp_all add: pagedSortedVisibleItems_def sortedVisibleItems_def totalPages_def
      visibleItems_def nextPage_def setSort_def setPageSize_def sortBy_def compareBookings_def
      slice_def relativeIndex_def jsSub_def Let_def latin1Runtime_def isWhiteSpace_def
      serverWorld_def newWorld_def initialState_def bookingA_def bookingB_def)

text \<open>With a page size of 0 the number of pages is infinite (or \<open>NaN\<close> when nothing is
  visible), and \<open>nextPage\<close> goes on.\<close>

lemma zero_page_size:
  "totalPages latin1Runtime (state (setPageSize (Fin 0) serverWorld)) = PosInf"
  "page (state (nextPage latin1Runtime (setPageSize (Fin 0) serverWorld))) = Fin 2"
  "page (state (nextPage latin1Runtime (setPageSize (Fin 0) (newWorld NoItem initialState)))) = NaN"
  by (simp_all add: totalPages_def sortedVisibleItems_def visibleItems_def nextPage_def
      setPageSize_def sortBy_def compareBookings_def infOfSign_def Let_def latin1Runtime_def
      isWhiteSpace_def serverWorld_def newWorld_def initialState_def bookingA_def bookingB_def)

end
